theory Spec2Isabelle
  imports Complex_Main
begin

section \<open>Time and ranges (camera-manager/range.ts)\<close>

text \<open>
  A JavaScript \<open>Date\<close> is modelled by its time value: the number of milliseconds since
  the epoch, an integer (\<open>Date.getTime()\<close>). Comparing two dates with \<open><\<close>, \<open>>=\<close>
  compares these numbers.
\<close>

type_synonym Date = int

text \<open>
  \<open>interface Range<T extends Date | number> { start: T; end: T }\<close>, for any ordered
  number type \<open>T\<close>: the integers for dates, the reals for numbers (\<open>end\<close> is a
  keyword of Isabelle, so the fields carry the prefix \<open>r\<close>).
\<close>

record 'a Range =
  rstart :: 'a
  rend :: 'a

type_synonym DateRange = "Date Range"

text \<open>The spec's invariant of an interval: \<open>start <= end\<close>.\<close>

definition valid_range :: "('a::linorder) Range \<Rightarrow> bool" where
  "valid_range r = (rstart r \<le> rend r)"

text \<open>The instants a range covers.\<close>

definition covered :: "('a::linorder) Range \<Rightarrow> 'a set" where
  "covered r = {rstart r .. rend r}"

text \<open>The two tests are declared for date ranges; they compare in the same way for any \<open>T\<close>.\<close>

definition rangeIsEntirelyContained :: "('a::linorder) Range \<Rightarrow> 'a Range \<Rightarrow> bool" where
  "rangeIsEntirelyContained bigger smaller =
     (rstart smaller \<ge> rstart bigger \<and> rend smaller \<le> rend bigger)"

definition rangesOverlap :: "('a::linorder) Range \<Rightarrow> 'a Range \<Rightarrow> bool" where
  "rangesOverlap a b =
     ((rstart a \<ge> rstart b \<and> rstart a \<le> rend b) \<or>
      (rend a \<ge> rstart b \<and> rend a \<le> rend b) \<or>
      (rstart a \<le> rstart b \<and> rend a \<ge> rend b))"

text \<open>
  The loop of \<open>compressRanges\<close>: \<open>current\<close> is the range being grown (\<open>null\<close> before
  the first range), \<open>compressedRanges\<close> the ranges pushed so far, the last argument the
  ranges still to visit. After the loop the current range, if any, is pushed.
\<close>

fun compress_loop ::
  "'a::linordered_idom \<Rightarrow> 'a Range option \<Rightarrow> 'a Range list \<Rightarrow> 'a Range list \<Rightarrow> 'a Range list" where
  "compress_loop tol current compressedRanges [] =
     (case current of None \<Rightarrow> compressedRanges | Some c \<Rightarrow> compressedRanges @ [c])"
| "compress_loop tol None compressedRanges (r # rs) =
     compress_loop tol (Some r) compressedRanges rs"
| "compress_loop tol (Some c) compressedRanges (r # rs) =
     (if rend c + tol * 1000 \<ge> rstart r
      then compress_loop tol
             (Some (if rend r > rend c then c\<lparr>rend := rend r\<rparr> else c)) compressedRanges rs
      else compress_loop tol (Some r) (compressedRanges @ [c]) rs)"

text \<open>
  \<open>orderBy(ranges, (range) => range.start, 'asc')\<close> is a stable sort on the start, as
  \<open>sort_key\<close> is.
\<close>

definition compressRanges :: "('a::linordered_idom) Range list \<Rightarrow> 'a \<Rightarrow> 'a Range list" where
  "compressRanges ranges toleranceSeconds =
     compress_loop toleranceSeconds None [] (sort_key rstart ranges)"

text \<open>The range that replaces the current one when the next range is merged into it.\<close>

definition extend_to :: "('a::linorder) Range \<Rightarrow> 'a Range \<Rightarrow> 'a Range" where
  "extend_to c r = (if rend r > rend c then c\<lparr>rend := rend r\<rparr> else c)"

section \<open>The date library, as the engine uses it\<close>

text \<open>
  \<open>fromUnixTime(s)\<close> of date-fns is \<open>new Date(s * 1000)\<close>. Segment times are whole
  seconds (the spec's data model), so they are integers here.
\<close>

definition fromUnixTime :: "int \<Rightarrow> Date" where
  "fromUnixTime unixTime = unixTime * 1000"

text \<open>
  \<open>add(date, {hours: h})\<close> and \<open>add(date, {seconds: s})\<close> of date-fns add the
  duration to the time value.
\<close>

definition add_hours :: "Date \<Rightarrow> int \<Rightarrow> Date" where
  "add_hours d h = d + h * 3600000"

definition add_seconds :: "Date \<Rightarrow> int \<Rightarrow> Date" where
  "add_seconds d s = d + s * 1000"

text \<open>
  \<open>startOfHour\<close>, \<open>endOfHour\<close>, \<open>Date.getHours()\<close> and \<open>Date.getDate()\<close> read the
  date on the local clock, under the rules of the host's time zone, daylight saving
  included. The zone is a parameter, given by the two conversions of the language
  standard: \<open>localTime\<close> maps an instant to the reading of the local clock (milliseconds
  since 1 January 1970 on that clock), and \<open>utcTime\<close> maps a reading of the local clock
  back to an instant (where a reading occurs twice or never, the zone fixes the choice).
  Nothing is assumed of either.
\<close>

record TimeZone =
  localTime :: "Date \<Rightarrow> int"
  utcTime :: "int \<Rightarrow> Date"

text \<open>
  \<open>startOfHour\<close> of date-fns is \<open>setMinutes(0, 0, 0)\<close> and \<open>endOfHour\<close> is
  \<open>setMinutes(59, 59, 999)\<close>: the local reading with minutes, seconds and milliseconds
  replaced, converted back to an instant.
\<close>

definition startOfHour :: "TimeZone \<Rightarrow> Date \<Rightarrow> Date" where
  "startOfHour tz d = utcTime tz (localTime tz d - localTime tz d mod 3600000)"

definition endOfHour :: "TimeZone \<Rightarrow> Date \<Rightarrow> Date" where
  "endOfHour tz d = utcTime tz (localTime tz d - localTime tz d mod 3600000 + 3599999)"

definition getHours :: "TimeZone \<Rightarrow> Date \<Rightarrow> int" where
  "getHours tz d = (localTime tz d div 3600000) mod 24"

text \<open>
  The day of the month (1 to 31) of the day that lies \<open>z\<close> days after 1 January 1970
  in the proleptic Gregorian calendar, by the usual era/day-of-era computation.
\<close>

definition day_of_month :: "int \<Rightarrow> int" where
  "day_of_month z =
     (let z1 = z + 719468;
          era = z1 div 146097;
          doe = z1 - era * 146097;
          yoe = (doe - doe div 1460 + doe div 36524 - doe div 146096) div 365;
          doy = doe - (365 * yoe + yoe div 4 - yoe div 100);
          mp = (5 * doy + 2) div 153
      in doy - (153 * mp + 2) div 5 + 1)"

definition getDate :: "TimeZone \<Rightarrow> Date \<Rightarrow> int" where
  "getDate tz d = day_of_month (localTime tz d div 86400000)"

text \<open>
  Two zones. In a zone of fixed offset the local clock is \<open>off\<close> milliseconds ahead of
  UTC at every instant. \<open>newYorkZone\<close> is the zone of New York around 5 November 2023:
  four hours behind UTC before 06:00 UTC of that day and five hours behind from then on,
  so that the clock shows the hour from 01:00 to 02:00 twice; a reading that occurs
  twice denotes its first occurrence, as the language standard has it.
\<close>

definition fixedZone :: "int \<Rightarrow> TimeZone" where
  "fixedZone off = \<lparr>localTime = (\<lambda>t. t + off), utcTime = (\<lambda>l. l - off)\<rparr>"

definition newYorkZone :: TimeZone where
  "newYorkZone =
     \<lparr>localTime = (\<lambda>t. if t < 1699164000000 then t - 14400000 else t - 18000000),
      utcTime = (\<lambda>l. if l + 14400000 < 1699164000000 then l + 14400000 else l + 18000000)\<rparr>"

text \<open>
  A number inside a template literal is written in decimal. Only integers occur here.
\<close>

definition digit_char :: "nat \<Rightarrow> char" where
  "digit_char d = char_of (48 + d)"

fun show_nat :: "nat \<Rightarrow> string" where
  "show_nat n = (if n < 10 then [digit_char n] else show_nat (n div 10) @ [digit_char (n mod 10)])"

definition show_int :: "int \<Rightarrow> string" where
  "show_int i = (if i < 0 then CHR ''-'' # show_nat (nat (- i)) else show_nat (nat i))"

section \<open>Data model (camera-manager/types.ts, frigate/types.ts, frigate/requests.ts)\<close>

text \<open>
  A JavaScript \<open>Set<string>\<close> iterates in insertion order and holds no element twice:
  it is a list here, and \<open>set_add\<close> is \<open>Set.add\<close>.
\<close>

definition set_add :: "'a list \<Rightarrow> 'a \<Rightarrow> 'a list" where
  "set_add xs x = (if x \<in> set xs then xs else xs @ [x])"

text \<open>What the engine reads of a camera's configuration (\<open>cameraConfig.frigate\<close>).\<close>

record CameraConfig =
  client_id :: string
  camera_name :: "string option"

datatype QueryType = Event | Recording | RecordingSegments | MediaMetadata

text \<open>
  Event, recording and media metadata queries. A field that the query does not carry is
  \<open>None\<close> (\<open>undefined\<close>). \<open>q_type\<close>, \<open>q_start\<close>, \<open>q_end\<close> and \<open>q_where\<close> are the
  source's \<open>type\<close>, \<open>start\<close>, \<open>end\<close> and \<open>where\<close>.
\<close>

record DataQuery =
  q_type :: QueryType
  cameraIDs :: "string list"
  q_start :: "Date option"
  q_end :: "Date option"
  what :: "string list option"
  q_where :: "string list option"
  tags :: "string list option"
  limit :: "int option"
  hasClip :: "bool option"
  hasSnapshot :: "bool option"
  favorite :: "bool option"

text \<open>A recording segments query: its start and end are mandatory.\<close>

record RecordingSegmentsQuery =
  rs_cameraIDs :: "string list"
  rs_start :: Date
  rs_end :: Date

record NativeFrigateEventQuery =
  instance_id :: "string option"
  cameras :: "string list option"
  labels :: "string list option"
  zones :: "string list option"
  sub_labels :: "string list option"
  after :: "int option"
  before :: "int option"
  n_limit :: "int option"
  n_has_clip :: "bool option"
  n_has_snapshot :: "bool option"
  favorites :: "bool option"

record NativeFrigateRecordingSegmentsQuery =
  seg_instance_id :: string
  seg_camera :: string
  seg_after :: int
  seg_before :: int

record FrigateEvent =
  event_id :: string
  camera :: string
  has_clip :: bool
  has_snapshot :: bool
  sub_label :: "string option"

record FrigateRecording =
  cameraID :: string
  startTime :: Date
  endTime :: Date
  rec_events :: int

record RecordingSegment =
  start_time :: int
  end_time :: int
  segment_id :: string

record HourData =
  hour :: int
  hour_events :: int

record DayData =
  day :: Date
  hours :: "HourData list"

record EventSummaryEntry =
  sum_camera :: string
  sum_label :: string
  sum_zones :: "string list"
  sum_day :: string
  sum_sub_label :: "string option"

record RetainRequest =
  req_type :: string
  req_instance_id :: string
  req_event_id :: string
  retain :: bool

record RetainResult =
  success :: bool
  message :: string

text \<open>
  Failures. A request over the websocket fails with a transport error (the remote call
  or the validation of its payload). \<open>FrigateCardError\<close> carries a message and a
  context, which at its one throw site holds the retain request and its response.
  \<open>TypeError\<close> is what JavaScript throws on reading a property of \<open>undefined\<close>.
\<close>

record RetainContext =
  request :: RetainRequest
  response :: RetainResult

datatype error = TransportError string | FrigateCardError string RetainContext | TypeError

datatype Engine = Frigate | OtherEngine

datatype QueryResultsType =
  EventResults | RecordingResults | RecordingSegmentsResults | MediaMetadataResults

record MediaMetadataRecord =
  md_what :: "string list option"
  md_where :: "string list option"
  md_days :: "string list option"
  md_tags :: "string list option"

text \<open>
  Query results: the tag \<open>r_type\<close>, the engine, and the payload of the tagged kind
  (the other payload fields are empty). TypeScript casts a cached result to the kind
  the caller expects without a check, so one record type holds every kind.
\<close>

record QueryResults =
  r_type :: QueryResultsType
  engine :: Engine
  instanceID :: "string option"
  events :: "FrigateEvent list"
  recordings :: "FrigateRecording list"
  segments :: "RecordingSegment list"
  metadata :: "MediaMetadataRecord"
  expiry :: "Date option"
  cached :: bool

definition no_metadata :: MediaMetadataRecord where
  "no_metadata = \<lparr>md_what = None, md_where = None, md_days = None, md_tags = None\<rparr>"

text \<open>
  What the engine reads and writes of a view media object (class \<open>ViewMedia\<close> and its
  classifier are not among the sources): its id, its camera, its media type (the one
  the factory was called with), whether it is a Frigate event, its start and end, and
  the favorite flag that \<open>setFavorite\<close> writes.
\<close>

datatype MediaType = Clip | Snapshot

record ViewMedia =
  media_id :: string
  media_cameraID :: string
  media_type :: MediaType
  media_isFrigateEvent :: bool
  media_startTime :: "Date option"
  media_endTime :: "Date option"
  media_favorite :: "bool option"

text \<open>
  The Home Assistant connection: its configured time zone and, for each request type of
  requests.ts, the validated answer of \<open>homeAssistantWSRequest\<close> or its failure.
\<close>

record HomeAssistant =
  time_zone :: string
  ws_recordings_summary :: "string \<Rightarrow> string \<Rightarrow> string \<Rightarrow> error + DayData list"
  ws_recordings_get :: "NativeFrigateRecordingSegmentsQuery \<Rightarrow> error + RecordingSegment list"
  ws_event_retain :: "RetainRequest \<Rightarrow> error + RetainResult"
  ws_events_get :: "NativeFrigateEventQuery \<Rightarrow> error + FrigateEvent list"
  ws_events_summary :: "string \<Rightarrow> string \<Rightarrow> error + EventSummaryEntry list"

text \<open>
  What the engine takes from its surroundings: the camera configuration store (an
  association list: \<open>getCameraConfig\<close> is the lookup, \<open>getCameraConfigEntries\<close> the
  list), \<open>isBirdseye\<close>, the constant \<open>CAMERA_MANAGER_ENGINE_EVENT_LIMIT_DEFAULT\<close>, the
  current time \<open>new Date()\<close> (one instant for a whole call), the local time zone,
  \<open>formatDate\<close>, \<open>localize\<close> and the media factory.
\<close>

record EngineContext =
  store :: "(string \<times> CameraConfig) list"
  isBirdseye :: "CameraConfig \<Rightarrow> bool"
  EVENT_LIMIT_DEFAULT :: int
  now :: Date
  zone :: TimeZone
  formatDate :: "Date \<Rightarrow> string"
  localize :: "string \<Rightarrow> string"
  createEventViewMedia ::
    "MediaType \<Rightarrow> string \<Rightarrow> CameraConfig \<Rightarrow> FrigateEvent \<Rightarrow> string list option \<Rightarrow> ViewMedia option"

section \<open>Coverage sets (camera-manager/range.ts)\<close>

text \<open>\<open>MemoryRangeSet\<close>: the stored ranges, with \<open>hasCoverage\<close> and \<open>add\<close>.\<close>

definition hasCoverage :: "DateRange list \<Rightarrow> DateRange \<Rightarrow> bool" where
  "hasCoverage ranges r = list_ex (\<lambda>cachedRange. rangeIsEntirelyContained cachedRange r) ranges"

definition rangeset_add :: "DateRange list \<Rightarrow> DateRange \<Rightarrow> DateRange list" where
  "rangeset_add ranges r = compressRanges (ranges @ [r]) 0"

section \<open>The caches and the result map\<close>

text \<open>
  A JavaScript \<open>Map\<close> compares object keys by identity. A key of a result map is
  therefore the object and its value: \<open>CallerQuery\<close> is the query object the caller
  passed in, \<open>SubQuery i\<close> the object that branch \<open>i\<close> of a fan-out created by a spread
  (\<open>{ ...query, cameraIDs: ... }\<close>). \<open>jsmap_set\<close> is \<open>Map.set\<close>: it replaces the value
  of a key that is present and appends a new key otherwise; \<open>Map.size\<close> is the length.
\<close>

datatype ObjRef = CallerQuery | SubQuery nat

type_synonym ('q, 'v) ResultsMap = "((ObjRef \<times> 'q) \<times> 'v) list"

definition jsmap_set :: "('k \<times> 'v) list \<Rightarrow> 'k \<Rightarrow> 'v \<Rightarrow> ('k \<times> 'v) list" where
  "jsmap_set m k v =
     (if k \<in> fst ` set m then map (\<lambda>(k1, v1). if k1 = k then (k1, v) else (k1, v1)) m
      else m @ [(k, v)])"

text \<open>
  Equality of queries by content, as a cache keyed by structured values compares them:
  sets are equal when they hold the same elements.
\<close>

definition same_set_option :: "string list option \<Rightarrow> string list option \<Rightarrow> bool" where
  "same_set_option a b =
     (case (a, b) of (None, None) \<Rightarrow> True | (Some x, Some y) \<Rightarrow> set x = set y | _ \<Rightarrow> False)"

definition query_equal :: "DataQuery \<Rightarrow> DataQuery \<Rightarrow> bool" where
  "query_equal a b =
     (q_type a = q_type b \<and> set (cameraIDs a) = set (cameraIDs b) \<and>
      q_start a = q_start b \<and> q_end a = q_end b \<and>
      same_set_option (what a) (what b) \<and> same_set_option (q_where a) (q_where b) \<and>
      same_set_option (tags a) (tags b) \<and> limit a = limit b \<and>
      hasClip a = hasClip b \<and> hasSnapshot a = hasSnapshot b \<and> favorite a = favorite b)"

text \<open>
  Modelled from the spec: class \<open>RequestCache\<close> (camera-manager/cache.ts) is not among
  the sources. The spec's Keyed Result Cache maps a structured query key, compared by
  content, to a previously computed result with a per-entry expiry, and offers
  \<open>get(key) -> value | null\<close>, \<open>has(key) -> bool\<close> and \<open>set(key, value, expiry)\<close>; an
  entry is void once the current time passes its expiry. The newest entry stands first.
\<close>

type_synonym RequestCache = "(DataQuery \<times> QueryResults \<times> Date) list"

definition requestCache_get :: "RequestCache \<Rightarrow> Date \<Rightarrow> DataQuery \<Rightarrow> QueryResults option" where
  "requestCache_get cache t k =
     (case find (\<lambda>(k1, v, e). query_equal k1 k \<and> t \<le> e) cache of
        None \<Rightarrow> None
      | Some (k1, v, e) \<Rightarrow> Some v)"

definition requestCache_has :: "RequestCache \<Rightarrow> Date \<Rightarrow> DataQuery \<Rightarrow> bool" where
  "requestCache_has cache t k = (requestCache_get cache t k \<noteq> None)"

definition requestCache_set ::
  "RequestCache \<Rightarrow> DataQuery \<Rightarrow> QueryResults \<Rightarrow> Date \<Rightarrow> RequestCache" where
  "requestCache_set cache k v e = (k, v, e) # filter (\<lambda>(k1, v1, e1). \<not> query_equal k1 k) cache"

text \<open>
  Modelled from the spec: class \<open>RecordingSegmentsCache\<close> (camera-manager/cache.ts) is
  not among the sources. Per camera it holds the stored segments and a coverage set.
  \<open>get(cameraID, range)\<close> returns the cached segments if the camera's coverage set
  reports the range fully covered and null otherwise; \<open>add(cameraID, range, segments)\<close>
  stores the segments (without deduplication) and records the range as covered;
  \<open>getCameraIDs()\<close> lists the cameras with cached data; \<open>expireMatches(cameraID,
  predicate)\<close> removes every stored segment of that camera for which the predicate is
  true and leaves the coverage record as it is.
\<close>

record SegmentsEntry =
  seg_ranges :: "DateRange list"
  seg_stored :: "RecordingSegment list"

type_synonym RecordingSegmentsCache = "(string \<times> SegmentsEntry) list"

definition segmentsCache_get ::
  "RecordingSegmentsCache \<Rightarrow> string \<Rightarrow> DateRange \<Rightarrow> RecordingSegment list option" where
  "segmentsCache_get cache cam r =
     (case map_of cache cam of
        None \<Rightarrow> None
      | Some e \<Rightarrow> if hasCoverage (seg_ranges e) r then Some (seg_stored e) else None)"

definition segmentsCache_add ::
  "RecordingSegmentsCache \<Rightarrow> string \<Rightarrow> DateRange \<Rightarrow> RecordingSegment list \<Rightarrow> RecordingSegmentsCache" where
  "segmentsCache_add cache cam r segs =
     (case map_of cache cam of
        None \<Rightarrow> cache @ [(cam, \<lparr>seg_ranges = rangeset_add [] r, seg_stored = segs\<rparr>)]
      | Some e \<Rightarrow>
          map (\<lambda>(c, e1). if c = cam
                 then (c, \<lparr>seg_ranges = rangeset_add (seg_ranges e1) r,
                           seg_stored = seg_stored e1 @ segs\<rparr>)
                 else (c, e1)) cache)"

definition segmentsCache_getCameraIDs :: "RecordingSegmentsCache \<Rightarrow> string list" where
  "segmentsCache_getCameraIDs cache = map fst cache"

definition segmentsCache_expireMatches ::
  "RecordingSegmentsCache \<Rightarrow> string \<Rightarrow> (RecordingSegment \<Rightarrow> bool) \<Rightarrow> RecordingSegmentsCache" where
  "segmentsCache_expireMatches cache cam p =
     map (\<lambda>(c, e1). if c = cam
            then (c, e1\<lparr>seg_stored := filter (\<lambda>s. \<not> p s) (seg_stored e1)\<rparr>)
            else (c, e1)) cache"

section \<open>Requests over the websocket (frigate/requests.ts)\<close>

definition requests_getRecordingsSummary ::
  "HomeAssistant \<Rightarrow> string \<Rightarrow> string \<Rightarrow> error + DayData list" where
  "requests_getRecordingsSummary hass clientID cam =
     ws_recordings_summary hass clientID cam (time_zone hass)"

definition requests_getRecordingSegments ::
  "HomeAssistant \<Rightarrow> NativeFrigateRecordingSegmentsQuery \<Rightarrow> error + RecordingSegment list" where
  "requests_getRecordingSegments hass params = ws_recordings_get hass params"

definition requests_getEvents ::
  "HomeAssistant \<Rightarrow> NativeFrigateEventQuery \<Rightarrow> error + FrigateEvent list" where
  "requests_getEvents hass params = ws_events_get hass params"

definition requests_getEventSummary ::
  "HomeAssistant \<Rightarrow> string \<Rightarrow> error + EventSummaryEntry list" where
  "requests_getEventSummary hass clientID = ws_events_summary hass clientID (time_zone hass)"

text \<open>
  \<open>retainEvent\<close>: the request is sent; a failure of the transport propagates; a
  response whose \<open>success\<close> is false throws \<open>FrigateCardError\<close> with the localized
  message and the request and response as context.
\<close>

definition retainEvent ::
  "EngineContext \<Rightarrow> HomeAssistant \<Rightarrow> string \<Rightarrow> string \<Rightarrow> bool \<Rightarrow> error + unit" where
  "retainEvent ctx hass clientID eventID rt =
     (let retainRequest =
            \<lparr>req_type = ''smarteyes-shop1/event/retain'', req_instance_id = clientID,
             req_event_id = eventID, retain = rt\<rparr>
      in case ws_event_retain hass retainRequest of
           Inl e \<Rightarrow> Inl e
         | Inr resp \<Rightarrow>
             if \<not> success resp
             then Inl (FrigateCardError (localize ctx ''error.failed_retain'')
                        \<lparr>request = retainRequest, response = resp\<rparr>)
             else Inr ())"

section \<open>The Frigate engine (frigate/engine-frigate.ts)\<close>

definition EVENT_REQUEST_CACHE_MAX_AGE_SECONDS :: int where
  "EVENT_REQUEST_CACHE_MAX_AGE_SECONDS = 60"

definition RECORDING_SUMMARY_REQUEST_CACHE_MAX_AGE_SECONDS :: int where
  "RECORDING_SUMMARY_REQUEST_CACHE_MAX_AGE_SECONDS = 60"

definition MEDIA_METADATA_REQUEST_CACHE_AGE_SECONDS :: int where
  "MEDIA_METADATA_REQUEST_CACHE_AGE_SECONDS = 60"

definition isFrigateEventQueryResults :: "QueryResults \<Rightarrow> bool" where
  "isFrigateEventQueryResults r = (engine r = Frigate \<and> r_type r = EventResults)"

definition isFrigateRecordingQueryResults :: "QueryResults \<Rightarrow> bool" where
  "isFrigateRecordingQueryResults r = (engine r = Frigate \<and> r_type r = RecordingResults)"

definition isFrigateRecordingSegmentsResults :: "QueryResults \<Rightarrow> bool" where
  "isFrigateRecordingSegmentsResults r =
     (engine r = Frigate \<and> r_type r = RecordingSegmentsResults)"

text \<open>
  \<open>engineOptions?.useCache ?? true\<close>: the options are the optional \<open>useCache\<close> flag,
  \<open>None\<close> when the options or the flag are absent.
\<close>

definition useCacheOf :: "bool option \<Rightarrow> bool" where
  "useCacheOf engineOptions = (case engineOptions of None \<Rightarrow> True | Some b \<Rightarrow> b)"

text \<open>A flag of a query is truthy when it is present and true.\<close>

definition truthy :: "bool option \<Rightarrow> bool" where
  "truthy b = (b = Some True)"

subsection \<open>favoriteMedia\<close>

text \<open>
  The media object is mutable: the function returns it as it is afterwards, beside the
  outcome (a failure of \<open>retainEvent\<close> propagates before \<open>setFavorite\<close> is reached).
\<close>

definition favoriteMedia ::
  "EngineContext \<Rightarrow> HomeAssistant \<Rightarrow> CameraConfig \<Rightarrow> ViewMedia \<Rightarrow> bool \<Rightarrow> (error + unit) \<times> ViewMedia" where
  "favoriteMedia ctx hass cameraConfig media fav =
     (if \<not> media_isFrigateEvent media then (Inr (), media)
      else case retainEvent ctx hass (client_id cameraConfig) (media_id media) fav of
             Inl e \<Rightarrow> (Inl e, media)
           | Inr u \<Rightarrow> (Inr (), media\<lparr>media_favorite := Some fav\<rparr>))"

subsection \<open>Cameras and instances\<close>

definition getQueryableCameraConfig :: "EngineContext \<Rightarrow> string \<Rightarrow> CameraConfig option" where
  "getQueryableCameraConfig ctx cam =
     (case map_of (store ctx) cam of
        None \<Rightarrow> None
      | Some cameraConfig \<Rightarrow> if isBirdseye ctx cameraConfig then None else Some cameraConfig)"

text \<open>
  \<open>Map<string, Set<string>>\<close> in insertion order. \<open>instances_add\<close> is the body of the
  loop: create the instance's set if the map has none, then add the camera to it.
\<close>

definition instances_add ::
  "(string \<times> string list) list \<Rightarrow> string \<Rightarrow> string \<Rightarrow> (string \<times> string list) list" where
  "instances_add out clientID cam =
     (let out1 = (if clientID \<in> fst ` set out then out else out @ [(clientID, [])])
      in map (\<lambda>(k, s). if k = clientID then (k, set_add s cam) else (k, s)) out1)"

definition buildInstanceToCameraIDMapFromQuery ::
  "EngineContext \<Rightarrow> string list \<Rightarrow> (string \<times> string list) list" where
  "buildInstanceToCameraIDMapFromQuery ctx cams =
     fold (\<lambda>cam out.
             case getQueryableCameraConfig ctx cam of
               None \<Rightarrow> out
             | Some cameraConfig \<Rightarrow>
                 if client_id cameraConfig \<noteq> [] then instances_add out (client_id cameraConfig) cam
                 else out)
          cams []"

definition getFrigateCameraNamesForCameraIDs :: "EngineContext \<Rightarrow> string list \<Rightarrow> string list" where
  "getFrigateCameraNamesForCameraIDs ctx cams =
     fold (\<lambda>cam out.
             case getQueryableCameraConfig ctx cam of
               None \<Rightarrow> out
             | Some cameraConfig \<Rightarrow>
                 (case camera_name cameraConfig of
                    None \<Rightarrow> out
                  | Some n \<Rightarrow> if n \<noteq> [] then set_add out n else out))
          cams []"

subsection \<open>getEvents\<close>

text \<open>
  The native query that \<open>processInstanceQuery\<close> builds. Each spread
  \<open>...(query.x && { field: ... })\<close> adds its field when \<open>query.x\<close> is truthy (a set or a
  date always is, a number unless 0, a flag when true); the property \<open>limit\<close> written
  last replaces what the spread of \<open>query.limit\<close> wrote.
\<close>

definition nativeEventQuery ::
  "EngineContext \<Rightarrow> DataQuery \<Rightarrow> string \<Rightarrow> string list \<Rightarrow> NativeFrigateEventQuery" where
  "nativeEventQuery ctx query inst cams =
     \<lparr>instance_id = Some inst,
      cameras = Some (getFrigateCameraNamesForCameraIDs ctx cams),
      labels = what query,
      zones = q_where query,
      sub_labels = tags query,
      after = map_option (\<lambda>d. d div 1000) (q_start query),
      before = map_option (\<lambda>d. d div 1000) (q_end query),
      n_limit = (case limit query of None \<Rightarrow> None | Some l \<Rightarrow> if l \<noteq> 0 then Some l else None),
      n_has_clip = (if truthy (hasClip query) then hasClip query else None),
      n_has_snapshot = (if truthy (hasSnapshot query) then hasSnapshot query else None),
      favorites = (if truthy (favorite query) then favorite query else None)\<rparr>
     \<lparr>n_limit := Some (case limit query of None \<Rightarrow> EVENT_LIMIT_DEFAULT ctx | Some l \<Rightarrow> l)\<rparr>"

text \<open>
  A call of the asynchronous \<open>processInstanceQuery\<close> runs up to its first \<open>await\<close>
  (the request to the backend) before \<open>Promise.all\<close> waits: so every branch reads the
  cache before any branch writes it. \<open>EventBranch\<close> is where a branch stands then:
  returned early, served from the cache (its \<open>output.set\<close> done), or about to send its
  native query.
\<close>

datatype EventBranch =
  EventSkipped
  | EventCacheHit QueryResults
  | EventFetch DataQuery NativeFrigateEventQuery

definition processInstanceQuery_begin ::
  "EngineContext \<Rightarrow> RequestCache \<Rightarrow> bool option \<Rightarrow> DataQuery \<Rightarrow> string \<Rightarrow> string list \<Rightarrow> EventBranch" where
  "processInstanceQuery_begin ctx cache engineOptions query inst cams =
     (if cams = [] then EventSkipped
      else
        let instanceQuery = query\<lparr>cameraIDs := cams\<rparr>;
            cachedResult = (if useCacheOf engineOptions
                            then requestCache_get cache (now ctx) instanceQuery else None)
        in case cachedResult of
             Some r \<Rightarrow> EventCacheHit r
           | None \<Rightarrow> EventFetch instanceQuery (nativeEventQuery ctx query inst cams))"

definition getEvents_branches ::
  "EngineContext \<Rightarrow> RequestCache \<Rightarrow> bool option \<Rightarrow> DataQuery \<Rightarrow> (string \<times> EventBranch) list" where
  "getEvents_branches ctx cache engineOptions query =
     map (\<lambda>(inst, cams). (inst, processInstanceQuery_begin ctx cache engineOptions query inst cams))
       (buildInstanceToCameraIDMapFromQuery ctx (cameraIDs query))"

text \<open>The native queries that a call sends to the backend: those of the fetching branches.\<close>

definition getEvents_sent ::
  "EngineContext \<Rightarrow> RequestCache \<Rightarrow> bool option \<Rightarrow> DataQuery \<Rightarrow> NativeFrigateEventQuery list" where
  "getEvents_sent ctx cache engineOptions query =
     concat (map (\<lambda>(inst, b). case b of EventFetch iq nq \<Rightarrow> [nq] | _ \<Rightarrow> [])
               (getEvents_branches ctx cache engineOptions query))"

text \<open>
  The rest of a fetching branch, once its request has settled: on success the result is
  built, stored in the cache and in the output map. The state is the cache, the output
  map and the first failure. Branches settle in some order; here in the order of the
  instances. A failure rejects \<open>Promise.all\<close>, and the other branches still complete.
\<close>

definition processInstanceQuery_finish ::
  "EngineContext \<Rightarrow> HomeAssistant \<Rightarrow> bool option \<Rightarrow> DataQuery \<Rightarrow> nat \<times> string \<times> EventBranch \<Rightarrow>
   RequestCache \<times> (DataQuery, QueryResults) ResultsMap \<times> error option \<Rightarrow>
   RequestCache \<times> (DataQuery, QueryResults) ResultsMap \<times> error option" where
  "processInstanceQuery_finish ctx hass engineOptions query ib st =
     (case (ib, st) of
        ((i, inst, EventFetch instanceQuery nativeQuery), (cache, out, err)) \<Rightarrow>
          (case requests_getEvents hass nativeQuery of
             Inl e \<Rightarrow> (cache, out, (case err of None \<Rightarrow> Some e | Some e0 \<Rightarrow> Some e0))
           | Inr evs \<Rightarrow>
               let exp = add_seconds (now ctx) EVENT_REQUEST_CACHE_MAX_AGE_SECONDS;
                   result = \<lparr>r_type = EventResults, engine = Frigate, instanceID = Some inst,
                             events = evs, recordings = [], segments = [],
                             metadata = no_metadata, expiry = Some exp, cached = False\<rparr>
               in ((if useCacheOf engineOptions
                    then requestCache_set cache query (result\<lparr>cached := True\<rparr>) exp
                    else cache),
                   jsmap_set out (SubQuery i, instanceQuery) result,
                   err))
      | (_, _) \<Rightarrow> st)"

text \<open>
  The output map and the cache when all branches have settled. The branches served from
  the cache wrote the output map first (under the caller's query object).
\<close>

definition getEvents_run ::
  "EngineContext \<Rightarrow> HomeAssistant \<Rightarrow> RequestCache \<Rightarrow> bool option \<Rightarrow> DataQuery \<Rightarrow>
   RequestCache \<times> (DataQuery, QueryResults) ResultsMap \<times> error option" where
  "getEvents_run ctx hass cache engineOptions query =
     (let branches = getEvents_branches ctx cache engineOptions query;
          out0 = fold (\<lambda>(inst, b) out.
                         case b of EventCacheHit r \<Rightarrow> jsmap_set out (CallerQuery, query) r
                                 | _ \<Rightarrow> out) branches []
      in fold (processInstanceQuery_finish ctx hass engineOptions query)
           (enumerate 0 branches) (cache, out0, None))"

text \<open>\<open>return output.size ? output : null\<close>, or the failure.\<close>

definition getEvents ::
  "EngineContext \<Rightarrow> HomeAssistant \<Rightarrow> RequestCache \<Rightarrow> bool option \<Rightarrow> DataQuery \<Rightarrow>
   (error + (DataQuery, QueryResults) ResultsMap option) \<times> RequestCache" where
  "getEvents ctx hass cache engineOptions query =
     (case getEvents_run ctx hass cache engineOptions query of
        (cache1, out, Some e) \<Rightarrow> (Inl e, cache1)
      | (cache1, out, None) \<Rightarrow> (Inr (if length out \<noteq> 0 then Some out else None), cache1))"

subsection \<open>getRecordings\<close>

text \<open>\<open>xs.slice(0, n)\<close>: a negative \<open>n\<close> counts from the end.\<close>

definition slice0 :: "'a list \<Rightarrow> int \<Rightarrow> 'a list" where
  "slice0 xs n = (if n \<ge> 0 then take (nat n) xs else take (nat (int (length xs) + n)) xs)"

text \<open>
  One hour of the summary: the recording of that hour if it passes the filter on the
  query's bounds, where an absent bound constrains nothing.
\<close>

definition recordingOfHour ::
  "EngineContext \<Rightarrow> DataQuery \<Rightarrow> string \<Rightarrow> DayData \<Rightarrow> HourData \<Rightarrow> FrigateRecording option" where
  "recordingOfHour ctx query cam dayData hourData =
     (let h = add_hours (day dayData) (hour hourData);
          startHour = startOfHour (zone ctx) h;
          endHour = endOfHour (zone ctx) h
      in if (case q_start query of None \<Rightarrow> True | Some s \<Rightarrow> startHour \<ge> s) \<and>
            (case q_end query of None \<Rightarrow> True | Some e \<Rightarrow> endHour \<le> e)
         then Some \<lparr>cameraID = cam, startTime = startHour, endTime = endHour,
                    rec_events = hour_events hourData\<rparr>
         else None)"

definition recordingsOfSummary ::
  "EngineContext \<Rightarrow> DataQuery \<Rightarrow> string \<Rightarrow> DayData list \<Rightarrow> FrigateRecording list" where
  "recordingsOfSummary ctx query cam summary =
     concat (map (\<lambda>dayData. List.map_filter (recordingOfHour ctx query cam dayData) (hours dayData))
               summary)"

text \<open>
  The emulated limit: \<open>orderBy(recordings, startTime, 'desc')\<close> is a stable sort, then
  \<open>slice(0, query.limit)\<close>.
\<close>

definition limitRecordings :: "DataQuery \<Rightarrow> FrigateRecording list \<Rightarrow> FrigateRecording list" where
  "limitRecordings query recs =
     (case limit query of
        None \<Rightarrow> recs
      | Some l \<Rightarrow> slice0 (sort_key (\<lambda>r. - startTime r) recs) l)"

datatype RecordingBranch =
  RecordingSkipped
  | RecordingCacheHit DataQuery QueryResults
  | RecordingFetch DataQuery CameraConfig string

definition recordings_processQuery_begin ::
  "EngineContext \<Rightarrow> RequestCache \<Rightarrow> bool option \<Rightarrow> DataQuery \<Rightarrow> string \<Rightarrow> RecordingBranch" where
  "recordings_processQuery_begin ctx cache engineOptions baseQuery cam =
     (let query = baseQuery\<lparr>cameraIDs := [cam]\<rparr>;
          cachedResult = (if useCacheOf engineOptions
                          then requestCache_get cache (now ctx) query else None)
      in case cachedResult of
           Some r \<Rightarrow> RecordingCacheHit query r
         | None \<Rightarrow>
             (case getQueryableCameraConfig ctx cam of
                None \<Rightarrow> RecordingSkipped
              | Some cameraConfig \<Rightarrow>
                  (case camera_name cameraConfig of
                     None \<Rightarrow> RecordingSkipped
                   | Some n \<Rightarrow> if n = [] then RecordingSkipped
                              else RecordingFetch query cameraConfig n)))"

definition getRecordings_branches ::
  "EngineContext \<Rightarrow> RequestCache \<Rightarrow> bool option \<Rightarrow> DataQuery \<Rightarrow> (string \<times> RecordingBranch) list" where
  "getRecordings_branches ctx cache engineOptions query =
     map (\<lambda>cam. (cam, recordings_processQuery_begin ctx cache engineOptions query cam))
       (cameraIDs query)"

text \<open>
  The result that a fetching branch builds from the summary of its camera: the summary
  is expanded and filtered, the limit emulated, and the result record filled in.
\<close>

definition recordingQueryResults ::
  "EngineContext \<Rightarrow> DataQuery \<Rightarrow> string \<Rightarrow> CameraConfig \<Rightarrow> DayData list \<Rightarrow> QueryResults" where
  "recordingQueryResults ctx query cam cameraConfig recordingSummary =
     \<lparr>r_type = RecordingResults, engine = Frigate,
      instanceID = Some (client_id cameraConfig),
      events = [],
      recordings = limitRecordings query (recordingsOfSummary ctx query cam recordingSummary),
      segments = [], metadata = no_metadata,
      expiry = Some (add_seconds (now ctx) RECORDING_SUMMARY_REQUEST_CACHE_MAX_AGE_SECONDS),
      cached = False\<rparr>"

definition recordings_processQuery_finish ::
  "EngineContext \<Rightarrow> HomeAssistant \<Rightarrow> bool option \<Rightarrow> nat \<times> string \<times> RecordingBranch \<Rightarrow>
   RequestCache \<times> (DataQuery, QueryResults) ResultsMap \<times> error option \<Rightarrow>
   RequestCache \<times> (DataQuery, QueryResults) ResultsMap \<times> error option" where
  "recordings_processQuery_finish ctx hass engineOptions ib st =
     (case (ib, st) of
        ((i, cam, RecordingFetch query cameraConfig n), (cache, out, err)) \<Rightarrow>
          (case requests_getRecordingsSummary hass (client_id cameraConfig) n of
             Inl e \<Rightarrow> (cache, out, (case err of None \<Rightarrow> Some e | Some e0 \<Rightarrow> Some e0))
           | Inr recordingSummary \<Rightarrow>
               let result = recordingQueryResults ctx query cam cameraConfig recordingSummary
               in ((if useCacheOf engineOptions
                    then requestCache_set cache query (result\<lparr>cached := True\<rparr>)
                           (add_seconds (now ctx) RECORDING_SUMMARY_REQUEST_CACHE_MAX_AGE_SECONDS)
                    else cache),
                   jsmap_set out (SubQuery i, query) result,
                   err))
      | (_, _) \<Rightarrow> st)"

definition getRecordings_run ::
  "EngineContext \<Rightarrow> HomeAssistant \<Rightarrow> RequestCache \<Rightarrow> bool option \<Rightarrow> DataQuery \<Rightarrow>
   RequestCache \<times> (DataQuery, QueryResults) ResultsMap \<times> error option" where
  "getRecordings_run ctx hass cache engineOptions query =
     (let branches = getRecordings_branches ctx cache engineOptions query;
          out0 = fold (\<lambda>(i, cam, b) out.
                         case b of RecordingCacheHit q r \<Rightarrow> jsmap_set out (SubQuery i, q) r
                                 | _ \<Rightarrow> out) (enumerate 0 branches) []
      in fold (recordings_processQuery_finish ctx hass engineOptions)
           (enumerate 0 branches) (cache, out0, None))"

definition getRecordings ::
  "EngineContext \<Rightarrow> HomeAssistant \<Rightarrow> RequestCache \<Rightarrow> bool option \<Rightarrow> DataQuery \<Rightarrow>
   (error + (DataQuery, QueryResults) ResultsMap option) \<times> RequestCache" where
  "getRecordings ctx hass cache engineOptions query =
     (case getRecordings_run ctx hass cache engineOptions query of
        (cache1, out, Some e) \<Rightarrow> (Inl e, cache1)
      | (cache1, out, None) \<Rightarrow> (Inr (if length out \<noteq> 0 then Some out else None), cache1))"

subsection \<open>getRecordingSegments\<close>

datatype SegmentsBranch =
  SegmentsSkipped
  | SegmentsCacheHit RecordingSegmentsQuery QueryResults
  | SegmentsFetch RecordingSegmentsQuery CameraConfig DateRange NativeFrigateRecordingSegmentsQuery

definition segments_processQuery_begin ::
  "EngineContext \<Rightarrow> RecordingSegmentsCache \<Rightarrow> bool option \<Rightarrow> RecordingSegmentsQuery \<Rightarrow> string \<Rightarrow>
   SegmentsBranch" where
  "segments_processQuery_begin ctx segCache engineOptions baseQuery cam =
     (let query = baseQuery\<lparr>rs_cameraIDs := [cam]\<rparr>
      in case getQueryableCameraConfig ctx cam of
           None \<Rightarrow> SegmentsSkipped
         | Some cameraConfig \<Rightarrow>
             (case camera_name cameraConfig of
                None \<Rightarrow> SegmentsSkipped
              | Some n \<Rightarrow>
                  if n = [] then SegmentsSkipped
                  else
                    let r = \<lparr>rstart = rs_start query, rend = rs_end query\<rparr>;
                        cachedSegments = (if useCacheOf engineOptions
                                          then segmentsCache_get segCache cam r else None)
                    in case cachedSegments of
                         Some segs \<Rightarrow>
                           SegmentsCacheHit query
                             \<lparr>r_type = RecordingSegmentsResults, engine = Frigate,
                              instanceID = Some (client_id cameraConfig),
                              events = [], recordings = [], segments = segs,
                              metadata = no_metadata, expiry = None, cached = True\<rparr>
                       | None \<Rightarrow>
                           SegmentsFetch query cameraConfig r
                             \<lparr>seg_instance_id = client_id cameraConfig, seg_camera = n,
                              seg_after = rs_start query div 1000,
                              seg_before = rs_end query div 1000\<rparr>))"

definition getRecordingSegments_branches ::
  "EngineContext \<Rightarrow> RecordingSegmentsCache \<Rightarrow> bool option \<Rightarrow> RecordingSegmentsQuery \<Rightarrow>
   (string \<times> SegmentsBranch) list" where
  "getRecordingSegments_branches ctx segCache engineOptions query =
     map (\<lambda>cam. (cam, segments_processQuery_begin ctx segCache engineOptions query cam))
       (rs_cameraIDs query)"

definition segments_processQuery_finish ::
  "HomeAssistant \<Rightarrow> bool option \<Rightarrow> nat \<times> string \<times> SegmentsBranch \<Rightarrow>
   RecordingSegmentsCache \<times> (RecordingSegmentsQuery, QueryResults) ResultsMap \<times> error option \<Rightarrow>
   RecordingSegmentsCache \<times> (RecordingSegmentsQuery, QueryResults) ResultsMap \<times> error option" where
  "segments_processQuery_finish hass engineOptions ib st =
     (case (ib, st) of
        ((i, cam, SegmentsFetch query cameraConfig r req), (segCache, out, err)) \<Rightarrow>
          (case requests_getRecordingSegments hass req of
             Inl e \<Rightarrow> (segCache, out, (case err of None \<Rightarrow> Some e | Some e0 \<Rightarrow> Some e0))
           | Inr segs \<Rightarrow>
               ((if useCacheOf engineOptions then segmentsCache_add segCache cam r segs
                 else segCache),
                jsmap_set out (SubQuery i, query)
                  \<lparr>r_type = RecordingSegmentsResults, engine = Frigate,
                   instanceID = Some (client_id cameraConfig),
                   events = [], recordings = [], segments = segs,
                   metadata = no_metadata, expiry = None, cached = False\<rparr>,
                err))
      | (_, _) \<Rightarrow> st)"

definition getRecordingSegments_run ::
  "EngineContext \<Rightarrow> HomeAssistant \<Rightarrow> RecordingSegmentsCache \<Rightarrow> bool option \<Rightarrow> RecordingSegmentsQuery \<Rightarrow>
   RecordingSegmentsCache \<times> (RecordingSegmentsQuery, QueryResults) ResultsMap \<times> error option" where
  "getRecordingSegments_run ctx hass segCache engineOptions query =
     (let branches = getRecordingSegments_branches ctx segCache engineOptions query;
          out0 = fold (\<lambda>(i, cam, b) out.
                         case b of SegmentsCacheHit q r \<Rightarrow> jsmap_set out (SubQuery i, q) r
                                 | _ \<Rightarrow> out) (enumerate 0 branches) []
      in fold (segments_processQuery_finish hass engineOptions)
           (enumerate 0 branches) (segCache, out0, None))"

text \<open>
  The call that schedules the throttled garbage collector when the host is idle is a
  matter of timers and is left out; the pass itself is \<open>garbageCollectSegments\<close> below.
\<close>

definition getRecordingSegments ::
  "EngineContext \<Rightarrow> HomeAssistant \<Rightarrow> RecordingSegmentsCache \<Rightarrow> bool option \<Rightarrow> RecordingSegmentsQuery \<Rightarrow>
   (error + (RecordingSegmentsQuery, QueryResults) ResultsMap option) \<times> RecordingSegmentsCache" where
  "getRecordingSegments ctx hass segCache engineOptions query =
     (case getRecordingSegments_run ctx hass segCache engineOptions query of
        (segCache1, out, Some e) \<Rightarrow> (Inl e, segCache1)
      | (segCache1, out, None) \<Rightarrow>
          (Inr (if length out \<noteq> 0 then Some out else None), segCache1))"

subsection \<open>generateMediaFromEvents\<close>

definition getCameraIDMatch ::
  "EngineContext \<Rightarrow> DataQuery \<Rightarrow> string option \<Rightarrow> string \<Rightarrow> string option" where
  "getCameraIDMatch ctx query inst cameraName =
     (case cameraIDs query of
        [cam] \<Rightarrow> Some cam
      | _ \<Rightarrow>
          map_option fst
            (find (\<lambda>(cam, cameraConfig).
                     Some (client_id cameraConfig) = inst \<and>
                     camera_name cameraConfig = Some cameraName)
               (store ctx)))"

text \<open>\<open>input.split(',').map((s) => s.trim())\<close>, with the white space of ASCII.\<close>

fun split_on :: "char \<Rightarrow> string \<Rightarrow> string list" where
  "split_on c [] = [[]]"
| "split_on c (x # xs) =
     (if x = c then [] # split_on c xs
      else (case split_on c xs of [] \<Rightarrow> [[x]] | w # ws \<Rightarrow> (x # w) # ws))"

definition is_space :: "char \<Rightarrow> bool" where
  "is_space c = (c \<in> set [char_of (9::nat), char_of (10::nat), char_of (11::nat),
                           char_of (12::nat), char_of (13::nat), char_of (32::nat)])"

definition trim :: "string \<Rightarrow> string" where
  "trim s = rev (dropWhile is_space (rev (dropWhile is_space s)))"

definition splitSubLabels :: "string \<Rightarrow> string list" where
  "splitSubLabels inp = map trim (split_on CHR '','' inp)"

text \<open>The media type of an event under a query, \<open>None\<close> for \<open>null\<close>.\<close>

definition resolveMediaType :: "DataQuery \<Rightarrow> FrigateEvent \<Rightarrow> MediaType option" where
  "resolveMediaType query event =
     (if \<not> truthy (hasClip query) \<and> \<not> truthy (hasSnapshot query) \<and>
         (has_clip event \<or> has_snapshot event)
      then Some (if has_clip event then Clip else Snapshot)
      else if truthy (hasSnapshot query) \<and> has_snapshot event then Some Snapshot
      else if truthy (hasClip query) \<and> has_clip event then Some Clip
      else None)"

text \<open>
  The body of the loop over the events: the media item of one event, or \<open>None\<close> where
  the loop continues without one.
\<close>

definition mediaOfEvent ::
  "EngineContext \<Rightarrow> DataQuery \<Rightarrow> QueryResults \<Rightarrow> FrigateEvent \<Rightarrow> ViewMedia option" where
  "mediaOfEvent ctx query results event =
     (case getCameraIDMatch ctx query (instanceID results) (camera event) of
        None \<Rightarrow> None
      | Some cam \<Rightarrow>
          if cam = [] then None
          else
            (case getQueryableCameraConfig ctx cam of
               None \<Rightarrow> None
             | Some cameraConfig \<Rightarrow>
                 (case resolveMediaType query event of
                    None \<Rightarrow> None
                  | Some mediaType \<Rightarrow>
                      createEventViewMedia ctx mediaType cam cameraConfig event
                        (case sub_label event of
                           None \<Rightarrow> None
                         | Some l \<Rightarrow> if l \<noteq> [] then Some (splitSubLabels l) else None))))"

definition generateMediaFromEvents ::
  "EngineContext \<Rightarrow> DataQuery \<Rightarrow> QueryResults \<Rightarrow> ViewMedia list option" where
  "generateMediaFromEvents ctx query results =
     (if \<not> isFrigateEventQueryResults results then None
      else Some (List.map_filter (mediaOfEvent ctx query results) (events results)))"

subsection \<open>getMediaSeekTime\<close>

text \<open>
  The loop of \<open>_getSeekTimeInSegments\<close>: \<open>seekMilliseconds\<close> is the running sum, and the
  loop breaks at the first segment that starts after the target.
\<close>

fun seek_loop :: "Date \<Rightarrow> Date \<Rightarrow> RecordingSegment list \<Rightarrow> int \<Rightarrow> int" where
  "seek_loop startT targetT [] seekMilliseconds = seekMilliseconds"
| "seek_loop startT targetT (seg # segs) seekMilliseconds =
     (let segmentStart = fromUnixTime (start_time seg)
      in if segmentStart > targetT then seekMilliseconds
         else
           let segmentEnd = fromUnixTime (end_time seg);
               s = (if segmentStart < startT then startT else segmentStart);
               e = (if segmentEnd > targetT then targetT else segmentEnd)
           in seek_loop startT targetT segs (seekMilliseconds + (e - s)))"

definition getSeekTimeInSegments :: "Date \<Rightarrow> Date \<Rightarrow> RecordingSegment list \<Rightarrow> rat option" where
  "getSeekTimeInSegments startT targetT segs =
     (if length segs = 0 then None
      else Some (of_int (seek_loop startT targetT segs 0) / 1000))"

text \<open>
  \<open>Array.from(results.values())[0].segments\<close> reads the first value of the map; on an
  empty map (which \<open>getRecordingSegments\<close> never returns) JavaScript would throw.
\<close>

definition getMediaSeekTime ::
  "EngineContext \<Rightarrow> HomeAssistant \<Rightarrow> RecordingSegmentsCache \<Rightarrow> ViewMedia \<Rightarrow> Date \<Rightarrow> bool option \<Rightarrow>
   (error + rat option) \<times> RecordingSegmentsCache" where
  "getMediaSeekTime ctx hass segCache media targetT engineOptions =
     (case (media_startTime media, media_endTime media) of
        (Some startT, Some endT) \<Rightarrow>
          if targetT < startT \<or> targetT > endT then (Inr None, segCache)
          else
            let query = \<lparr>rs_cameraIDs = [media_cameraID media], rs_start = startT, rs_end = endT\<rparr>
            in (case getRecordingSegments ctx hass segCache engineOptions query of
                  (Inl e, segCache1) \<Rightarrow> (Inl e, segCache1)
                | (Inr None, segCache1) \<Rightarrow> (Inr None, segCache1)
                | (Inr (Some results), segCache1) \<Rightarrow>
                    (case results of
                       [] \<Rightarrow> (Inl TypeError, segCache1)
                     | (k, v) # rest \<Rightarrow>
                         (Inr (getSeekTimeInSegments startT targetT (segments v)), segCache1)))
      | (_, _) \<Rightarrow> (Inr None, segCache))"

subsection \<open>getMediaMetadata\<close>

text \<open>The four sets that the summaries fill.\<close>

record MetadataSets =
  ms_what :: "string list"
  ms_where :: "string list"
  ms_days :: "string list"
  ms_tags :: "string list"

definition add_all :: "'a list \<Rightarrow> 'a list \<Rightarrow> 'a list" where
  "add_all s xs = fold (\<lambda>x acc. set_add acc x) xs s"

definition eventSummaryEntry_add :: "string list \<Rightarrow> EventSummaryEntry \<Rightarrow> MetadataSets \<Rightarrow> MetadataSets" where
  "eventSummaryEntry_add cameraNames entry s =
     (if sum_camera entry \<notin> set cameraNames then s
      else
        \<lparr>ms_what = (if sum_label entry \<noteq> [] then set_add (ms_what s) (sum_label entry)
                     else ms_what s),
         ms_where = add_all (ms_where s) (sum_zones entry),
         ms_days = (if sum_day entry \<noteq> [] then set_add (ms_days s) (sum_day entry)
                    else ms_days s),
         ms_tags = (case sum_sub_label entry of
                      None \<Rightarrow> ms_tags s
                    | Some l \<Rightarrow> if l \<noteq> [] then add_all (ms_tags s) (splitSubLabels l)
                               else ms_tags s)\<rparr>)"

definition processEventSummary ::
  "EngineContext \<Rightarrow> HomeAssistant \<Rightarrow> string \<Rightarrow> string list \<Rightarrow> MetadataSets \<Rightarrow> error + MetadataSets" where
  "processEventSummary ctx hass inst cams s =
     (let cameraNames = getFrigateCameraNamesForCameraIDs ctx cams
      in case requests_getEventSummary hass inst of
           Inl e \<Rightarrow> Inl e
         | Inr entries \<Rightarrow> Inr (fold (eventSummaryEntry_add cameraNames) entries s))"

definition recordingQueryFor :: "string list \<Rightarrow> DataQuery" where
  "recordingQueryFor cams =
     \<lparr>q_type = Recording, cameraIDs = cams, q_start = None, q_end = None, what = None,
      q_where = None, tags = None, limit = None, hasClip = None, hasSnapshot = None,
      favorite = None\<rparr>"

definition processRecordings ::
  "EngineContext \<Rightarrow> HomeAssistant \<Rightarrow> RequestCache \<Rightarrow> bool option \<Rightarrow> string list \<Rightarrow> MetadataSets \<Rightarrow>
   (error + MetadataSets) \<times> RequestCache" where
  "processRecordings ctx hass cache engineOptions cams s =
     (case getRecordings ctx hass cache engineOptions (recordingQueryFor cams) of
        (Inl e, cache1) \<Rightarrow> (Inl e, cache1)
      | (Inr None, cache1) \<Rightarrow> (Inr s, cache1)
      | (Inr (Some recs), cache1) \<Rightarrow>
          (Inr (fold (\<lambda>(k, result) s1.
                        if \<not> isFrigateRecordingQueryResults result then s1
                        else fold (\<lambda>recording s2.
                                     s2\<lparr>ms_days := set_add (ms_days s2)
                                                     (formatDate ctx (startTime recording))\<rparr>)
                               (recordings result) s1)
                  recs s),
           cache1))"

text \<open>
  One instance of the fan-out: its event summary and its recordings. The instances hold
  disjoint cameras, so they touch different cache keys, and are run one after the other.
\<close>

definition metadata_instance ::
  "EngineContext \<Rightarrow> HomeAssistant \<Rightarrow> bool option \<Rightarrow> string \<times> string list \<Rightarrow>
   RequestCache \<times> MetadataSets \<times> error option \<Rightarrow> RequestCache \<times> MetadataSets \<times> error option" where
  "metadata_instance ctx hass engineOptions ic st =
     (case (ic, st) of
        ((inst, cams), (cache, s, err)) \<Rightarrow>
          (case processEventSummary ctx hass inst cams s of
             Inl e \<Rightarrow>
               (case processRecordings ctx hass cache engineOptions cams s of
                  (r, cache1) \<Rightarrow>
                    (cache1, s, (case err of None \<Rightarrow> Some e | Some e0 \<Rightarrow> Some e0)))
           | Inr s1 \<Rightarrow>
               (case processRecordings ctx hass cache engineOptions cams s1 of
                  (Inl e, cache1) \<Rightarrow>
                    (cache1, s1, (case err of None \<Rightarrow> Some e | Some e0 \<Rightarrow> Some e0))
                | (Inr s2, cache1) \<Rightarrow> (cache1, s2, err))))"

definition nonempty_set :: "string list \<Rightarrow> string list option" where
  "nonempty_set s = (if length s \<noteq> 0 then Some s else None)"

definition getMediaMetadata ::
  "EngineContext \<Rightarrow> HomeAssistant \<Rightarrow> RequestCache \<Rightarrow> bool option \<Rightarrow> DataQuery \<Rightarrow>
   (error + (DataQuery, QueryResults) ResultsMap option) \<times> RequestCache" where
  "getMediaMetadata ctx hass cache engineOptions query =
     (case (if useCacheOf engineOptions \<and> requestCache_has cache (now ctx) query
            then requestCache_get cache (now ctx) query else None) of
        Some cachedResult \<Rightarrow> (Inr (Some (jsmap_set [] (CallerQuery, query) cachedResult)), cache)
      | None \<Rightarrow>
          (case fold (metadata_instance ctx hass engineOptions)
                  (buildInstanceToCameraIDMapFromQuery ctx (cameraIDs query))
                  (cache, \<lparr>ms_what = [], ms_where = [], ms_days = [], ms_tags = []\<rparr>, None) of
             (cache1, s, Some e) \<Rightarrow> (Inl e, cache1)
           | (cache1, s, None) \<Rightarrow>
               let exp = add_seconds (now ctx) MEDIA_METADATA_REQUEST_CACHE_AGE_SECONDS;
                   result = \<lparr>r_type = MediaMetadataResults, engine = Frigate, instanceID = None,
                             events = [], recordings = [], segments = [],
                             metadata = \<lparr>md_what = nonempty_set (ms_what s),
                                         md_where = nonempty_set (ms_where s),
                                         md_days = nonempty_set (ms_days s),
                                         md_tags = nonempty_set (ms_tags s)\<rparr>,
                             expiry = Some exp, cached = False\<rparr>
               in (Inr (Some (jsmap_set [] (CallerQuery, query) result)),
                   (if useCacheOf engineOptions
                    then requestCache_set cache1 query (result\<lparr>cached := True\<rparr>) exp
                    else cache1))))"

subsection \<open>Garbage collection of recording segments\<close>

definition getHourID :: "TimeZone \<Rightarrow> string \<Rightarrow> Date \<Rightarrow> string" where
  "getHourID tz cam startT =
     cam @ ''/'' @ show_int (getDate tz startT) @ ''/'' @ show_int (getHours tz startT)"

text \<open>
  The body of the loop over the results of the recording query. The query of a result
  holds exactly one camera (\<open>getRecordings\<close> builds it so); with none there is nothing
  to expire.
\<close>

definition garbageCollect_result ::
  "EngineContext \<Rightarrow> (ObjRef \<times> DataQuery) \<times> QueryResults \<Rightarrow> RecordingSegmentsCache \<Rightarrow>
   RecordingSegmentsCache" where
  "garbageCollect_result ctx qr segCache =
     (case qr of
        ((ref, query), result) \<Rightarrow>
          if \<not> isFrigateRecordingQueryResults result then segCache
          else
            let goodHours = map (\<lambda>recording. getHourID (zone ctx) (cameraID recording)
                                                 (startTime recording))
                              (recordings result)
            in (case cameraIDs query of
                  [] \<Rightarrow> segCache
                | cam # others \<Rightarrow>
                    segmentsCache_expireMatches segCache cam
                      (\<lambda>segment. getHourID (zone ctx) cam (fromUnixTime (start_time segment))
                                   \<notin> set goodHours)))"

definition garbageCollectSegments ::
  "EngineContext \<Rightarrow> HomeAssistant \<Rightarrow> RequestCache \<Rightarrow> RecordingSegmentsCache \<Rightarrow>
   (error + unit) \<times> RequestCache \<times> RecordingSegmentsCache" where
  "garbageCollectSegments ctx hass cache segCache =
     (let cams = segmentsCache_getCameraIDs segCache;
          recordingQuery = recordingQueryFor cams
      in case getRecordings ctx hass cache None recordingQuery of
           (Inl e, cache1) \<Rightarrow> (Inl e, cache1, segCache)
         | (Inr None, cache1) \<Rightarrow> (Inr (), cache1, segCache)
         | (Inr (Some results), cache1) \<Rightarrow>
             (Inr (), cache1, fold (garbageCollect_result ctx) results segCache))"

section \<open>Notions of the specification\<close>

text \<open>
  The duration, in milliseconds, of the overlap of a segment with the window from
  \<open>startT\<close> to \<open>targetT\<close>: zero when they do not meet. This follows the spec's words
  ("the duration of its overlap with [mediaStart, target]"), not the code.
\<close>

definition overlapDuration :: "Date \<Rightarrow> Date \<Rightarrow> RecordingSegment \<Rightarrow> int" where
  "overlapDuration startT targetT seg =
     max 0 (min (fromUnixTime (end_time seg)) targetT - max (fromUnixTime (start_time seg)) startT)"

text \<open>A segment starts at or before the target.\<close>

definition startsByTarget :: "Date \<Rightarrow> RecordingSegment \<Rightarrow> bool" where
  "startsByTarget targetT seg = (fromUnixTime (start_time seg) \<le> targetT)"

text \<open>
  A segment as the backend returns it for a media item that starts at \<open>startT\<close>: it does
  not end before it starts, and it does not end before the media item starts.
\<close>

definition segmentWithin :: "Date \<Rightarrow> RecordingSegment \<Rightarrow> bool" where
  "segmentWithin startT seg =
     (start_time seg \<le> end_time seg \<and> startT \<le> fromUnixTime (end_time seg))"

section \<open>What a branch of getRecordings contributes\<close>

text \<open>
  The entry that branch \<open>i\<close> adds to the output map: a branch served from the cache adds
  the cached result, a fetching branch whose request succeeds adds the result it builds,
  any other branch adds nothing. The properties below show that the output map of
  \<open>getRecordings\<close> is the list of these entries.
\<close>

definition recordings_hit_entry ::
  "nat \<times> string \<times> RecordingBranch \<Rightarrow> ((ObjRef \<times> DataQuery) \<times> QueryResults) option" where
  "recordings_hit_entry ib =
     (case ib of
        (i, cam, RecordingCacheHit q r) \<Rightarrow> Some ((SubQuery i, q), r)
      | _ \<Rightarrow> None)"

definition recordings_fetch_entry ::
  "EngineContext \<Rightarrow> HomeAssistant \<Rightarrow> nat \<times> string \<times> RecordingBranch \<Rightarrow>
   ((ObjRef \<times> DataQuery) \<times> QueryResults) option" where
  "recordings_fetch_entry ctx hass ib =
     (case ib of
        (i, cam, RecordingFetch q cameraConfig n) \<Rightarrow>
          (case requests_getRecordingsSummary hass (client_id cameraConfig) n of
             Inl e \<Rightarrow> None
           | Inr recordingSummary \<Rightarrow>
               Some ((SubQuery i, q), recordingQueryResults ctx q cam cameraConfig recordingSummary))
      | _ \<Rightarrow> None)"

section \<open>Hours of the garbage collector\<close>

text \<open>
  What the comparison of two \<open>getHourID\<close> strings of one camera amounts to: the two
  instants agree on the day of the month and on the hour of the day, both read on the
  local clock. Instants a month apart can agree.
\<close>

definition sameDayOfMonthAndHour :: "TimeZone \<Rightarrow> Date \<Rightarrow> Date \<Rightarrow> bool" where
  "sameDayOfMonthAndHour tz t1 t2 =
     (getDate tz t1 = getDate tz t2 \<and> getHours tz t1 = getHours tz t2)"

text \<open>
  The start of a segment agrees in this way with the start of some recording of a list.
\<close>

definition dayAndHourListed :: "TimeZone \<Rightarrow> FrigateRecording list \<Rightarrow> RecordingSegment \<Rightarrow> bool" where
  "dayAndHourListed tz recs seg =
     list_ex (\<lambda>r. sameDayOfMonthAndHour tz (startTime r) (fromUnixTime (start_time seg))) recs"

text \<open>
  The spec's words, by contrast: the hour containing the segment appears in the
  recording list, that is, the segment starts within the hour of some listed recording
  (from its start to its end).
\<close>

definition hourInList :: "FrigateRecording list \<Rightarrow> RecordingSegment \<Rightarrow> bool" where
  "hourInList recs seg =
     list_ex (\<lambda>r. startTime r \<le> fromUnixTime (start_time seg) \<and>
                   fromUnixTime (start_time seg) \<le> endTime r) recs"

section \<open>An example installation\<close>

text \<open>
  Three cameras on two Frigate instances, a backend that answers every request with
  fixed payloads, a clock, and UTC as the local time zone. The closed examples below are
  evaluated on it.
\<close>

definition example_store :: "(string \<times> CameraConfig) list" where
  "example_store =
     [(''front'', \<lparr>client_id = ''frigate'', camera_name = Some ''front_door''\<rparr>),
      (''back'', \<lparr>client_id = ''frigate'', camera_name = Some ''back_yard''\<rparr>),
      (''garage'', \<lparr>client_id = ''frigate2'', camera_name = Some ''garage''\<rparr>)]"

definition example_ctx :: EngineContext where
  "example_ctx =
     \<lparr>store = example_store,
      isBirdseye = (\<lambda>c. camera_name c = Some ''birdseye''),
      EVENT_LIMIT_DEFAULT = 10000,
      now = 1700000000000,
      zone = fixedZone 0,
      formatDate = (\<lambda>d. show_int (d div 86400000)),
      localize = (\<lambda>k. k),
      createEventViewMedia =
        (\<lambda>mediaType cam cameraConfig event subLabels.
           Some \<lparr>media_id = event_id event, media_cameraID = cam, media_type = mediaType,
                 media_isFrigateEvent = True, media_startTime = None, media_endTime = None,
                 media_favorite = None\<rparr>)\<rparr>"

definition example_hass ::
  "FrigateEvent list \<Rightarrow> DayData list \<Rightarrow> RecordingSegment list \<Rightarrow> bool \<Rightarrow> HomeAssistant" where
  "example_hass evs days segs ok =
     \<lparr>time_zone = ''UTC'',
      ws_recordings_summary = (\<lambda>inst cam zone. Inr days),
      ws_recordings_get = (\<lambda>params. Inr segs),
      ws_event_retain = (\<lambda>req. Inr \<lparr>success = ok, message = []\<rparr>),
      ws_events_get = (\<lambda>params. Inr evs),
      ws_events_summary = (\<lambda>inst zone. Inr [])\<rparr>"

definition example_query :: "QueryType \<Rightarrow> string list \<Rightarrow> DataQuery" where
  "example_query t cams =
     \<lparr>q_type = t, cameraIDs = cams, q_start = None, q_end = None, what = None,
      q_where = None, tags = None, limit = None, hasClip = None, hasSnapshot = None,
      favorite = None\<rparr>"

definition example_event :: "string \<Rightarrow> bool \<Rightarrow> bool \<Rightarrow> FrigateEvent" where
  "example_event cam c s =
     \<lparr>event_id = ''event'', camera = cam, has_clip = c, has_snapshot = s, sub_label = None\<rparr>"

definition example_media :: ViewMedia where
  "example_media =
     \<lparr>media_id = ''event'', media_cameraID = ''front'', media_type = Clip,
      media_isFrigateEvent = True, media_startTime = Some 1700000000000,
      media_endTime = Some 1700003600000, media_favorite = None\<rparr>"

text \<open>
  The segments of the seek scenario: 0 to 600, 600 to 1200 and 2000 to 2600 seconds after
  the start of the example media item.
\<close>

definition example_segments :: "RecordingSegment list" where
  "example_segments =
     [\<lparr>start_time = 1700000000, end_time = 1700000600, segment_id = ''a''\<rparr>,
      \<lparr>start_time = 1700000600, end_time = 1700001200, segment_id = ''b''\<rparr>,
      \<lparr>start_time = 1700002000, end_time = 1700002600, segment_id = ''c''\<rparr>]"

text \<open>
  A recording summary of one day (14 November 2023, from midnight UTC) with recordings
  in the hours 1 to 5.
\<close>

definition example_summary :: "DayData list" where
  "example_summary =
     [\<lparr>day = 1699920000000,
       hours = [\<lparr>hour = 1, hour_events = 0\<rparr>, \<lparr>hour = 2, hour_events = 3\<rparr>,
                \<lparr>hour = 3, hour_events = 0\<rparr>, \<lparr>hour = 4, hour_events = 1\<rparr>,
                \<lparr>hour = 5, hour_events = 0\<rparr>]\<rparr>]"

definition example_recording :: "string \<Rightarrow> int \<Rightarrow> int \<Rightarrow> FrigateRecording" where
  "example_recording cam h n =
     \<lparr>cameraID = cam, startTime = 1699920000000 + h * 3600000,
      endTime = 1699920000000 + h * 3600000 + 3599999, rec_events = n\<rparr>"

text \<open>
  A segment cache that holds, for the camera \<open>front\<close>, one segment in each of the hours 1
  to 5 of that day (ten minutes into the hour), and a summary that lists the hours 2 to 4
  only.
\<close>

definition example_segment :: "int \<Rightarrow> RecordingSegment" where
  "example_segment h =
     \<lparr>start_time = 1699920000 + h * 3600 + 600, end_time = 1699920000 + h * 3600 + 610,
      segment_id = ''segment''\<rparr>"

definition example_segments_cache :: RecordingSegmentsCache where
  "example_segments_cache =
     [(''front'',
       \<lparr>seg_ranges = [\<lparr>rstart = 1699920000000, rend = 1699941600000\<rparr>],
        seg_stored = [example_segment 1, example_segment 2, example_segment 3,
                      example_segment 4, example_segment 5]\<rparr>)]"

definition example_summary_2_to_4 :: "DayData list" where
  "example_summary_2_to_4 =
     [\<lparr>day = 1699920000000,
       hours = [\<lparr>hour = 2, hour_events = 3\<rparr>, \<lparr>hour = 3, hour_events = 0\<rparr>,
                \<lparr>hour = 4, hour_events = 1\<rparr>]\<rparr>]"

text \<open>
  A segment cache that also holds a segment of the same camera from a month earlier:
  it starts on 14 October 2023 at 02:10 UTC, where the summary lists hours of
  14 November only.
\<close>

definition example_old_segment :: RecordingSegment where
  "example_old_segment =
     \<lparr>start_time = 1697249400, end_time = 1697249410, segment_id = ''october''\<rparr>"

definition example_old_segments_cache :: RecordingSegmentsCache where
  "example_old_segments_cache =
     [(''front'',
       \<lparr>seg_ranges = [\<lparr>rstart = 1697241600000, rend = 1699941600000\<rparr>],
        seg_stored = [example_old_segment, example_segment 1, example_segment 2,
                      example_segment 5]\<rparr>)]"

section \<open>Unfolding the definitions\<close>

text \<open>The definitions that the evaluation of a closed example unfolds.\<close>

lemmas seek_eval =
  getMediaSeekTime_def getRecordingSegments_def getRecordingSegments_run_def
  getRecordingSegments_branches_def segments_processQuery_begin_def
  segments_processQuery_finish_def getQueryableCameraConfig_def segmentsCache_get_def
  segmentsCache_add_def requests_getRecordingSegments_def useCacheOf_def jsmap_set_def
  getSeekTimeInSegments_def fromUnixTime_def
  example_ctx_def example_store_def example_hass_def example_media_def example_segments_def

lemmas recordings_eval =
  getRecordings_def getRecordings_run_def getRecordings_branches_def
  recordings_processQuery_begin_def recordings_processQuery_finish_def
  recordingQueryResults_def recordingsOfSummary_def recordingOfHour_def limitRecordings_def
  slice0_def List.map_filter_def add_hours_def add_seconds_def startOfHour_def endOfHour_def fixedZone_def
  getQueryableCameraConfig_def requests_getRecordingsSummary_def requestCache_get_def
  requestCache_set_def useCacheOf_def jsmap_set_def no_metadata_def
  RECORDING_SUMMARY_REQUEST_CACHE_MAX_AGE_SECONDS_def
  example_ctx_def example_store_def example_hass_def example_query_def example_summary_def
  example_recording_def

lemmas events_eval =
  getEvents_def getEvents_run_def getEvents_branches_def processInstanceQuery_begin_def
  processInstanceQuery_finish_def nativeEventQuery_def buildInstanceToCameraIDMapFromQuery_def
  getFrigateCameraNamesForCameraIDs_def getQueryableCameraConfig_def instances_add_def
  set_add_def useCacheOf_def requestCache_get_def requestCache_set_def requests_getEvents_def
  query_equal_def same_set_option_def truthy_def jsmap_set_def add_seconds_def no_metadata_def
  EVENT_REQUEST_CACHE_MAX_AGE_SECONDS_def
  example_ctx_def example_store_def example_hass_def example_query_def example_event_def

lemmas metadata_eval =
  getMediaMetadata_def metadata_instance_def processEventSummary_def processRecordings_def
  recordingQueryFor_def requests_getEventSummary_def eventSummaryEntry_add_def nonempty_set_def
  requestCache_has_def MEDIA_METADATA_REQUEST_CACHE_AGE_SECONDS_def
  buildInstanceToCameraIDMapFromQuery_def getFrigateCameraNamesForCameraIDs_def
  instances_add_def set_add_def query_equal_def same_set_option_def

section \<open>Range compression: properties\<close>

lemma compress_loop_acc:
  "compress_loop tol cur acc rs = acc @ compress_loop tol cur [] rs"
proof (induction rs arbitrary: cur acc)
  case Nil
  then show ?case by (simp split: option.splits)
next
  case (Cons r rs)
  show ?case
  proof (cases cur)
    case None
    then show ?thesis using Cons[of "Some r" acc] by simp
  next
    case (Some c)
    show ?thesis
    proof (cases "rend c + tol * 1000 \<ge> rstart r")
      case True
      then show ?thesis using Some Cons[of _ acc] by simp
    next
      case False
      then show ?thesis using Some Cons[of "Some r" "acc @ [c]"] Cons[of "Some r" "[c]"] by simp
    qed
  qed
qed

lemma rstart_extend_to: "rstart (extend_to c r) = rstart c"
  by (simp add: extend_to_def)

lemma compress_loop_flush:
  "\<not> rend c + tol * 1000 \<ge> rstart r \<Longrightarrow>
   compress_loop tol (Some c) [] (r # rs) = c # compress_loop tol (Some r) [] rs"
  using compress_loop_acc[of tol "Some r" "[c]" rs] by simp

lemma compress_loop_merge:
  "rend c + tol * 1000 \<ge> rstart r \<Longrightarrow>
   compress_loop tol (Some c) [] (r # rs) = compress_loop tol (Some (extend_to c r)) [] rs"
  by (simp add: extend_to_def)

lemma compress_loop_starts:
  "x \<in> set (compress_loop tol (Some c) [] rs) \<Longrightarrow>
   rstart x = rstart c \<or> rstart x \<in> rstart ` set rs"
proof (induction rs arbitrary: c)
  case Nil
  then show ?case by simp
next
  case (Cons r rs)
  show ?case
  proof (cases "rend c + tol * 1000 \<ge> rstart r")
    case True
    have "x \<in> set (compress_loop tol (Some (extend_to c r)) [] rs)"
      using Cons.prems by (simp only: compress_loop_merge[OF True])
    then have "rstart x = rstart (extend_to c r) \<or> rstart x \<in> rstart ` set rs"
      by (rule Cons.IH)
    then show ?thesis by (auto simp: rstart_extend_to)
  next
    case False
    have "x = c \<or> x \<in> set (compress_loop tol (Some r) [] rs)"
      using Cons.prems by (simp only: compress_loop_flush[OF False]) simp
    then show ?thesis using Cons.IH[of r] by auto
  qed
qed

lemma compress_loop_separated:
  "sorted (map rstart (c # rs)) \<Longrightarrow>
   sorted_wrt (\<lambda>a b. rend a + tol * 1000 < rstart b) (compress_loop tol (Some c) [] rs)"
proof (induction rs arbitrary: c)
  case Nil
  then show ?case by simp
next
  case (Cons r rs)
  show ?case
  proof (cases "rend c + tol * 1000 \<ge> rstart r")
    case True
    have "sorted (map rstart (extend_to c r # rs))"
      using Cons.prems by (auto simp: rstart_extend_to)
    then show ?thesis using Cons.IH[of "extend_to c r"]
      by (simp only: compress_loop_merge[OF True])
  next
    case False
    have s: "sorted (map rstart (r # rs))" using Cons.prems by simp
    have "\<forall>x \<in> set (compress_loop tol (Some r) [] rs). rend c + tol * 1000 < rstart x"
    proof
      fix x assume "x \<in> set (compress_loop tol (Some r) [] rs)"
      then have "rstart x = rstart r \<or> rstart x \<in> rstart ` set rs"
        by (rule compress_loop_starts)
      then have "rstart r \<le> rstart x" using s by auto
      then show "rend c + tol * 1000 < rstart x" using False by linarith
    qed
    then show ?thesis using Cons.IH[OF s]
      by (simp add: compress_loop_flush[OF False] del: compress_loop.simps)
  qed
qed

lemma compress_loop_sorted_starts:
  "sorted (map rstart (c # rs)) \<Longrightarrow>
   sorted (map rstart (compress_loop tol (Some c) [] rs))"
proof (induction rs arbitrary: c)
  case Nil
  then show ?case by simp
next
  case (Cons r rs)
  show ?case
  proof (cases "rend c + tol * 1000 \<ge> rstart r")
    case True
    have "sorted (map rstart (extend_to c r # rs))"
      using Cons.prems by (auto simp: rstart_extend_to)
    then show ?thesis using Cons.IH[of "extend_to c r"]
      by (simp only: compress_loop_merge[OF True])
  next
    case False
    have s: "sorted (map rstart (r # rs))" using Cons.prems by simp
    have "\<forall>x \<in> set (compress_loop tol (Some r) [] rs). rstart c \<le> rstart x"
    proof
      fix x assume "x \<in> set (compress_loop tol (Some r) [] rs)"
      then have "rstart x = rstart r \<or> rstart x \<in> rstart ` set rs"
        by (rule compress_loop_starts)
      then show "rstart c \<le> rstart x" using Cons.prems by auto
    qed
    then show ?thesis using Cons.IH[OF s]
      by (simp add: compress_loop_flush[OF False] del: compress_loop.simps)
  qed
qed

lemma compress_loop_fixed:
  "sorted_wrt (\<lambda>a b. rend a + tol * 1000 < rstart b) (c # rs) \<Longrightarrow>
   compress_loop tol (Some c) [] rs = c # rs"
proof (induction rs arbitrary: c)
  case Nil
  then show ?case by simp
next
  case (Cons r rs)
  have f: "\<not> rend c + tol * 1000 \<ge> rstart r" using Cons.prems by simp
  have "sorted_wrt (\<lambda>a b. rend a + tol * 1000 < rstart b) (r # rs)" using Cons.prems by simp
  then have "compress_loop tol (Some r) [] rs = r # rs" by (rule Cons.IH)
  then show ?case by (simp only: compress_loop_flush[OF f])
qed

lemma covered_extend_to:
  "rstart c \<le> rstart r \<Longrightarrow> rstart r \<le> rend c \<Longrightarrow>
   covered (extend_to c r) = covered c \<union> covered r"
  by (auto simp: covered_def extend_to_def)

lemma compress_loop_cover:
  "sorted (map rstart (c # rs)) \<Longrightarrow>
   (\<Union>x \<in> set (compress_loop 0 (Some c) [] rs). covered x) = covered c \<union> (\<Union>x \<in> set rs. covered x)"
proof (induction rs arbitrary: c)
  case Nil
  then show ?case by simp
next
  case (Cons r rs)
  show ?case
  proof (cases "rend c + 0 * 1000 \<ge> rstart r")
    case True
    have s: "sorted (map rstart (extend_to c r # rs))"
      using Cons.prems by (auto simp: rstart_extend_to)
    have "covered (extend_to c r) = covered c \<union> covered r"
      using True Cons.prems by (intro covered_extend_to) auto
    then show ?thesis using Cons.IH[OF s]
      by (simp only: compress_loop_merge[OF True]) auto
  next
    case False
    have s: "sorted (map rstart (r # rs))" using Cons.prems by simp
    show ?thesis using Cons.IH[OF s]
      by (simp only: compress_loop_flush[OF False]) auto
  qed
qed

lemma compress_loop_valid:
  "valid_range c \<Longrightarrow> list_all valid_range rs \<Longrightarrow>
   list_all valid_range (compress_loop tol (Some c) [] rs)"
proof (induction rs arbitrary: c)
  case Nil
  then show ?case by simp
next
  case (Cons r rs)
  show ?case
  proof (cases "rend c + tol * 1000 \<ge> rstart r")
    case True
    have "valid_range (extend_to c r)"
      using Cons.prems by (auto simp: valid_range_def extend_to_def)
    then show ?thesis using Cons.IH[of "extend_to c r"] Cons.prems
      by (simp only: compress_loop_merge[OF True]) simp
  next
    case False
    show ?thesis using Cons.IH[of r] Cons.prems
      by (simp only: compress_loop_flush[OF False]) simp
  qed
qed

lemma compressRanges_unfold:
  "compressRanges ranges tol =
     (case sort_key rstart ranges of [] \<Rightarrow> [] | c # rs \<Rightarrow> compress_loop tol (Some c) [] rs)"
  by (simp add: compressRanges_def split: list.splits)

lemma compressRanges_separated:
  "sorted_wrt (\<lambda>a b. rend a + tol * 1000 < rstart b) (compressRanges ranges tol)"
proof (cases "sort_key rstart ranges")
  case Nil
  then show ?thesis by (simp add: compressRanges_unfold)
next
  case (Cons c rs)
  have "sorted (map rstart (sort_key rstart ranges))" by (rule sorted_sort_key)
  then have "sorted (map rstart (c # rs))" using Cons by simp
  then show ?thesis using Cons
    by (simp add: compressRanges_unfold compress_loop_separated del: compress_loop.simps)
qed

lemma compressRanges_sorted_starts:
  "sorted (map rstart (compressRanges ranges tol))"
proof (cases "sort_key rstart ranges")
  case Nil
  then show ?thesis by (simp add: compressRanges_unfold)
next
  case (Cons c rs)
  have "sorted (map rstart (sort_key rstart ranges))" by (rule sorted_sort_key)
  then have "sorted (map rstart (c # rs))" using Cons by simp
  then have "sorted (map rstart (compress_loop tol (Some c) [] rs))"
    by (rule compress_loop_sorted_starts)
  then show ?thesis using Cons by (simp add: compressRanges_unfold del: compress_loop.simps)
qed

lemma compressRanges_cover:
  "(\<Union>x \<in> set (compressRanges ranges 0). covered x) = (\<Union>x \<in> set ranges. covered x)"
proof (cases "sort_key rstart ranges")
  case Nil
  then have "set (sort_key rstart ranges) = {}" by simp
  then have "ranges = []" by simp
  then show ?thesis by (simp add: compressRanges_def)
next
  case (Cons c rs)
  have "sorted (map rstart (sort_key rstart ranges))" by (rule sorted_sort_key)
  then have "sorted (map rstart (c # rs))" using Cons by simp
  then have "(\<Union>x \<in> set (compress_loop 0 (Some c) [] rs). covered x)
               = covered c \<union> (\<Union>x \<in> set rs. covered x)"
    by (rule compress_loop_cover)
  also have "\<dots> = (\<Union>x \<in> set (sort_key rstart ranges). covered x)" using Cons by simp
  also have "\<dots> = (\<Union>x \<in> set ranges. covered x)" by simp
  finally show ?thesis using Cons by (simp add: compressRanges_unfold del: compress_loop.simps)
qed

lemma compressRanges_valid:
  "list_all valid_range ranges \<Longrightarrow> list_all valid_range (compressRanges ranges tol)"
proof (cases "sort_key rstart ranges")
  case Nil
  then show ?thesis by (simp add: compressRanges_unfold)
next
  case (Cons c rs)
  assume "list_all valid_range ranges"
  then have "list_all valid_range (sort_key rstart ranges)" by (simp add: list_all_iff)
  then have "valid_range c" "list_all valid_range rs" using Cons by simp_all
  then have "list_all valid_range (compress_loop tol (Some c) [] rs)"
    by (rule compress_loop_valid)
  then show ?thesis using Cons by (simp add: compressRanges_unfold del: compress_loop.simps)
qed

lemma compressRanges_fixed:
  "sorted (map rstart xs) \<Longrightarrow> sorted_wrt (\<lambda>a b. rend a + tol * 1000 < rstart b) xs \<Longrightarrow>
   compressRanges xs tol = xs"
proof (cases xs)
  case Nil
  then show ?thesis by (simp add: compressRanges_def)
next
  case (Cons c rs)
  assume s: "sorted (map rstart xs)" and w: "sorted_wrt (\<lambda>a b. rend a + tol * 1000 < rstart b) xs"
  have "sort_key rstart xs = xs" using s by (rule sort_key_id_if_sorted)
  moreover have "compress_loop tol (Some c) [] rs = c # rs"
    using w Cons by (intro compress_loop_fixed) simp
  ultimately show ?thesis using Cons by (simp add: compressRanges_unfold del: compress_loop.simps)
qed

lemma separated_not_overlap:
  "valid_range a \<Longrightarrow> valid_range b \<Longrightarrow> rend a < rstart b \<Longrightarrow> \<not> rangesOverlap a b \<and> \<not> rangesOverlap b a"
  by (auto simp: rangesOverlap_def valid_range_def)

text \<open>
  C5. For every list of valid ranges (over the integers, the reals or any other ordered
  number type), \<open>compressRanges\<close> with tolerance 0 returns a sequence that is sorted, whose ranges are pairwise non-overlapping (each ends strictly
  before every later one starts, so \<open>rangesOverlap\<close> is false in either direction), and
  whose covered instants are exactly the instants the input ranges cover.
\<close>

theorem compressRanges_exact_cover:
  assumes "list_all valid_range ranges"
  shows "sorted (map rstart (compressRanges ranges 0)) \<and>
         list_all valid_range (compressRanges ranges 0) \<and>
         sorted_wrt (\<lambda>a b. rend a < rstart b \<and> \<not> rangesOverlap a b \<and> \<not> rangesOverlap b a)
           (compressRanges ranges 0) \<and>
         (\<Union>x \<in> set (compressRanges ranges 0). covered x) = (\<Union>x \<in> set ranges. covered x)"
proof -
  let ?out = "compressRanges ranges 0"
  have v: "list_all valid_range ?out" using assms by (rule compressRanges_valid)
  have "sorted_wrt (\<lambda>a b. rend a + 0 * 1000 < rstart b) ?out"
    by (rule compressRanges_separated)
  then have sep: "sorted_wrt (\<lambda>a b. rend a < rstart b) ?out" by simp
  have "sorted_wrt (\<lambda>a b. rend a < rstart b \<and> \<not> rangesOverlap a b \<and> \<not> rangesOverlap b a) ?out"
  proof (rule sorted_wrt_mono_rel[OF _ sep])
    fix a b
    assume "a \<in> set ?out" "b \<in> set ?out" "rend a < rstart b"
    then show "rend a < rstart b \<and> \<not> rangesOverlap a b \<and> \<not> rangesOverlap b a"
      using v separated_not_overlap[of a b] by (simp add: list_all_iff)
  qed
  then show ?thesis
    using v compressRanges_sorted_starts[of ranges 0] compressRanges_cover[of ranges] by simp
qed

theorem compressRanges_exact_cover_witness:
  "list_all valid_range
     [\<lparr>rstart = 5::int, rend = 9\<rparr>, \<lparr>rstart = 1, rend = 3\<rparr>, \<lparr>rstart = 2, rend = 6\<rparr>,
      \<lparr>rstart = 20, rend = 30\<rparr>] \<and>
   compressRanges
     [\<lparr>rstart = 5::int, rend = 9\<rparr>, \<lparr>rstart = 1, rend = 3\<rparr>, \<lparr>rstart = 2, rend = 6\<rparr>,
      \<lparr>rstart = 20, rend = 30\<rparr>] 0
     = [\<lparr>rstart = 1::int, rend = 9\<rparr>, \<lparr>rstart = 20, rend = 30\<rparr>] \<and>
   (\<Union>x \<in> set [\<lparr>rstart = 1::int, rend = 9\<rparr>, \<lparr>rstart = 20, rend = 30\<rparr>]. covered x) =
   (\<Union>x \<in> set [\<lparr>rstart = 5::int, rend = 9\<rparr>, \<lparr>rstart = 1, rend = 3\<rparr>, \<lparr>rstart = 2, rend = 6\<rparr>,
      \<lparr>rstart = 20, rend = 30\<rparr>]. covered x)"
proof -
  let ?inp = "[\<lparr>rstart = 5::int, rend = 9\<rparr>, \<lparr>rstart = 1, rend = 3\<rparr>, \<lparr>rstart = 2, rend = 6\<rparr>,
      \<lparr>rstart = 20, rend = 30\<rparr>]"
  have h: "list_all valid_range ?inp" by (simp add: valid_range_def)
  have out: "compressRanges ?inp 0 = [\<lparr>rstart = 1::int, rend = 9\<rparr>, \<lparr>rstart = 20, rend = 30\<rparr>]"
    by (simp add: compressRanges_def)
  show ?thesis using h compressRanges_exact_cover[OF h] unfolding out by simp
qed

text \<open>
  C6. \<open>compressRanges\<close> is idempotent: compressing a compressed list returns the same
  list (hence the same cover), for every input list and every tolerance; and the cover
  does not depend on the order of the input: lists with the same ranges compress (once
  or twice) to lists with the same cover.
\<close>

theorem compressRanges_idempotent:
  "compressRanges (compressRanges R tol) tol = compressRanges R tol \<and>
   (set R' = set R \<longrightarrow>
      (\<Union>x \<in> set (compressRanges (compressRanges R' 0) 0). covered x) =
      (\<Union>x \<in> set (compressRanges R 0). covered x))"
proof -
  have "compressRanges (compressRanges R tol) tol = compressRanges R tol" for R :: "'a Range list"
    by (rule compressRanges_fixed[OF compressRanges_sorted_starts compressRanges_separated])
  then show ?thesis by (simp add: compressRanges_cover)
qed

theorem compressRanges_idempotent_witness:
  "set [\<lparr>rstart = 1::int, rend = 3\<rparr>, \<lparr>rstart = 2, rend = 6\<rparr>, \<lparr>rstart = 8, rend = 9\<rparr>] =
   set [\<lparr>rstart = 8::int, rend = 9\<rparr>, \<lparr>rstart = 2, rend = 6\<rparr>, \<lparr>rstart = 1, rend = 3\<rparr>] \<and>
   compressRanges
     [\<lparr>rstart = 8::int, rend = 9\<rparr>, \<lparr>rstart = 2, rend = 6\<rparr>, \<lparr>rstart = 1, rend = 3\<rparr>] 0 =
     [\<lparr>rstart = 1, rend = 6\<rparr>, \<lparr>rstart = 8, rend = 9\<rparr>] \<and>
   compressRanges [\<lparr>rstart = 1::int, rend = 6\<rparr>, \<lparr>rstart = 8, rend = 9\<rparr>] 0 =
     [\<lparr>rstart = 1, rend = 6\<rparr>, \<lparr>rstart = 8, rend = 9\<rparr>] \<and>
   (\<Union>x \<in> set (compressRanges (compressRanges
        [\<lparr>rstart = 1::int, rend = 3\<rparr>, \<lparr>rstart = 2, rend = 6\<rparr>, \<lparr>rstart = 8, rend = 9\<rparr>] 0) 0).
      covered x) =
   (\<Union>x \<in> set (compressRanges
        [\<lparr>rstart = 8::int, rend = 9\<rparr>, \<lparr>rstart = 2, rend = 6\<rparr>, \<lparr>rstart = 1, rend = 3\<rparr>] 0).
      covered x)"
proof -
  let ?R = "[\<lparr>rstart = 8::int, rend = 9\<rparr>, \<lparr>rstart = 2, rend = 6\<rparr>, \<lparr>rstart = 1, rend = 3\<rparr>]"
  let ?R' = "[\<lparr>rstart = 1::int, rend = 3\<rparr>, \<lparr>rstart = 2, rend = 6\<rparr>, \<lparr>rstart = 8, rend = 9\<rparr>]"
  have h: "set ?R' = set ?R" by auto
  have o: "compressRanges ?R 0 = [\<lparr>rstart = 1, rend = 6\<rparr>, \<lparr>rstart = 8, rend = 9\<rparr>]"
    by (simp add: compressRanges_def)
  have i: "compressRanges [\<lparr>rstart = 1::int, rend = 6\<rparr>, \<lparr>rstart = 8, rend = 9\<rparr>] 0 =
     [\<lparr>rstart = 1, rend = 6\<rparr>, \<lparr>rstart = 8, rend = 9\<rparr>]"
    using compressRanges_idempotent[of ?R 0] unfolding o by simp
  have c: "(\<Union>x \<in> set (compressRanges (compressRanges ?R' 0) 0). covered x) =
           (\<Union>x \<in> set (compressRanges ?R 0). covered x)"
    using compressRanges_idempotent[of ?R 0 ?R'] h by blast
  show ?thesis using h o i c by blast
qed

section \<open>Media projection, retaining, native event queries\<close>

lemma map_filter_drop_None:
  "f x = None \<Longrightarrow> List.map_filter f (xs @ x # ys) = List.map_filter f (xs @ ys)"
  by (simp add: List.map_filter_def)

lemma map_filter_append_Cons:
  "List.map_filter f (xs @ x # ys) =
     List.map_filter f xs @ (case f x of None \<Rightarrow> [] | Some y \<Rightarrow> [y]) @ List.map_filter f ys"
  by (simp add: List.map_filter_def split: option.splits)

lemma mediaOfEvent_events_irrelevant:
  "mediaOfEvent ctx query (results\<lparr>events := es\<rparr>) = mediaOfEvent ctx query results"
  by (rule ext) (simp add: mediaOfEvent_def)

text \<open>
  C8. In \<open>generateMediaFromEvents\<close>, for every event: if the query requests neither
  clips nor snapshots and the event offers at least one, the media type is clip when the
  event has a clip and snapshot otherwise; a requested snapshot (or clip) is resolved
  only when the event offers it; in every other case the type is null. An event of a
  queryable camera whose type resolves yields what the media factory makes of it when
  called with the resolved type, and it yields an item only in this way; an event whose
  type is null yields no item, and the result is the same as without that event. For
  every Frigate event result the function returns (no failure) the list that holds, in
  the order of the events, the item of each event that yields one.
\<close>

theorem generateMediaFromEvents_media_type:
  "(\<not> truthy (hasClip query) \<and> \<not> truthy (hasSnapshot query) \<and> (has_clip event \<or> has_snapshot event)
      \<longrightarrow> resolveMediaType query event = Some (if has_clip event then Clip else Snapshot)) \<and>
   (truthy (hasSnapshot query) \<and> has_snapshot event \<longrightarrow> resolveMediaType query event = Some Snapshot) \<and>
   (truthy (hasClip query) \<and> \<not> truthy (hasSnapshot query) \<and> has_clip event
      \<longrightarrow> resolveMediaType query event = Some Clip) \<and>
   (resolveMediaType query event = Some Snapshot \<longrightarrow> has_snapshot event) \<and>
   (resolveMediaType query event = Some Clip \<longrightarrow> has_clip event) \<and>
   (resolveMediaType query event = None \<longleftrightarrow>
      \<not> (\<not> truthy (hasClip query) \<and> \<not> truthy (hasSnapshot query) \<and> (has_clip event \<or> has_snapshot event)) \<and>
      \<not> (truthy (hasSnapshot query) \<and> has_snapshot event) \<and>
      \<not> (truthy (hasClip query) \<and> has_clip event)) \<and>
   (getCameraIDMatch ctx query (instanceID results) (camera event) = Some cam \<and> cam \<noteq> [] \<and>
    getQueryableCameraConfig ctx cam = Some cameraConfig \<and>
    resolveMediaType query event = Some mediaType \<longrightarrow>
      mediaOfEvent ctx query results event =
        createEventViewMedia ctx mediaType cam cameraConfig event
          (case sub_label event of
             None \<Rightarrow> None
           | Some l \<Rightarrow> if l \<noteq> [] then Some (splitSubLabels l) else None)) \<and>
   (mediaOfEvent ctx query results event = Some media \<longrightarrow>
      (\<exists>mt c cfg.
         resolveMediaType query event = Some mt \<and>
         getCameraIDMatch ctx query (instanceID results) (camera event) = Some c \<and>
         getQueryableCameraConfig ctx c = Some cfg \<and>
         createEventViewMedia ctx mt c cfg event
           (case sub_label event of
              None \<Rightarrow> None
            | Some l \<Rightarrow> if l \<noteq> [] then Some (splitSubLabels l) else None) = Some media)) \<and>
   (resolveMediaType query event = None \<longrightarrow>
      mediaOfEvent ctx query results event = None \<and>
      generateMediaFromEvents ctx query (results\<lparr>events := evs1 @ event # evs2\<rparr>) =
      generateMediaFromEvents ctx query (results\<lparr>events := evs1 @ evs2\<rparr>)) \<and>
   (isFrigateEventQueryResults results \<longrightarrow>
      (\<exists>ms1 ms2.
         generateMediaFromEvents ctx query (results\<lparr>events := evs1\<rparr>) = Some ms1 \<and>
         generateMediaFromEvents ctx query (results\<lparr>events := evs2\<rparr>) = Some ms2 \<and>
         generateMediaFromEvents ctx query (results\<lparr>events := evs1 @ event # evs2\<rparr>) =
           Some (ms1 @ (case mediaOfEvent ctx query results event of
                          None \<Rightarrow> [] | Some m \<Rightarrow> [m]) @ ms2)))"
proof -
  let ?subLabels = "case sub_label event of
             None \<Rightarrow> None
           | Some l \<Rightarrow> if l \<noteq> [] then Some (splitSubLabels l) else None"
  have skip: "mediaOfEvent ctx query results event = None"
    if "resolveMediaType query event = None"
    using that by (simp add: mediaOfEvent_def split: option.splits)
  have drop: "generateMediaFromEvents ctx query (results\<lparr>events := evs1 @ event # evs2\<rparr>) =
      generateMediaFromEvents ctx query (results\<lparr>events := evs1 @ evs2\<rparr>)"
    if "resolveMediaType query event = None"
    using skip[OF that]
    by (simp add: generateMediaFromEvents_def isFrigateEventQueryResults_def
        mediaOfEvent_events_irrelevant map_filter_drop_None)
  have res: "(\<not> truthy (hasClip query) \<and> \<not> truthy (hasSnapshot query) \<and> (has_clip event \<or> has_snapshot event)
      \<longrightarrow> resolveMediaType query event = Some (if has_clip event then Clip else Snapshot)) \<and>
   (truthy (hasSnapshot query) \<and> has_snapshot event \<longrightarrow> resolveMediaType query event = Some Snapshot) \<and>
   (truthy (hasClip query) \<and> \<not> truthy (hasSnapshot query) \<and> has_clip event
      \<longrightarrow> resolveMediaType query event = Some Clip) \<and>
   (resolveMediaType query event = Some Snapshot \<longrightarrow> has_snapshot event) \<and>
   (resolveMediaType query event = Some Clip \<longrightarrow> has_clip event) \<and>
   (resolveMediaType query event = None \<longleftrightarrow>
      \<not> (\<not> truthy (hasClip query) \<and> \<not> truthy (hasSnapshot query) \<and> (has_clip event \<or> has_snapshot event)) \<and>
      \<not> (truthy (hasSnapshot query) \<and> has_snapshot event) \<and>
      \<not> (truthy (hasClip query) \<and> has_clip event))"
    by (auto simp: resolveMediaType_def)
  have made: "getCameraIDMatch ctx query (instanceID results) (camera event) = Some cam \<and> cam \<noteq> [] \<and>
    getQueryableCameraConfig ctx cam = Some cameraConfig \<and>
    resolveMediaType query event = Some mediaType \<longrightarrow>
      mediaOfEvent ctx query results event =
        createEventViewMedia ctx mediaType cam cameraConfig event ?subLabels"
    by (simp add: mediaOfEvent_def)
  have only: "mediaOfEvent ctx query results event = Some media \<longrightarrow>
      (\<exists>mt c cfg.
         resolveMediaType query event = Some mt \<and>
         getCameraIDMatch ctx query (instanceID results) (camera event) = Some c \<and>
         getQueryableCameraConfig ctx c = Some cfg \<and>
         createEventViewMedia ctx mt c cfg event ?subLabels = Some media)"
    by (auto simp: mediaOfEvent_def split: option.splits if_splits)
  have tail1: "resolveMediaType query event = None \<longrightarrow>
      mediaOfEvent ctx query results event = None \<and>
      generateMediaFromEvents ctx query (results\<lparr>events := evs1 @ event # evs2\<rparr>) =
      generateMediaFromEvents ctx query (results\<lparr>events := evs1 @ evs2\<rparr>)"
    using skip drop by blast
  have tail2: "isFrigateEventQueryResults results \<longrightarrow>
      (\<exists>ms1 ms2.
         generateMediaFromEvents ctx query (results\<lparr>events := evs1\<rparr>) = Some ms1 \<and>
         generateMediaFromEvents ctx query (results\<lparr>events := evs2\<rparr>) = Some ms2 \<and>
         generateMediaFromEvents ctx query (results\<lparr>events := evs1 @ event # evs2\<rparr>) =
           Some (ms1 @ (case mediaOfEvent ctx query results event of
                          None \<Rightarrow> [] | Some m \<Rightarrow> [m]) @ ms2))"
    by (simp add: generateMediaFromEvents_def isFrigateEventQueryResults_def
        mediaOfEvent_events_irrelevant map_filter_append_Cons)
  show ?thesis by (intro conjI; (use res made only tail1 tail2 in blast))
qed

theorem generateMediaFromEvents_media_type_witness:
  "generateMediaFromEvents example_ctx (example_query Event [''front''])
     \<lparr>r_type = EventResults, engine = Frigate, instanceID = Some ''frigate'',
      events = [example_event ''front_door'' True True], recordings = [], segments = [],
      metadata = no_metadata, expiry = None, cached = False\<rparr> =
     Some [\<lparr>media_id = ''event'', media_cameraID = ''front'', media_type = Clip,
            media_isFrigateEvent = True, media_startTime = None, media_endTime = None,
            media_favorite = None\<rparr>] \<and>
   generateMediaFromEvents example_ctx ((example_query Event [''front''])\<lparr>hasSnapshot := Some True\<rparr>)
     \<lparr>r_type = EventResults, engine = Frigate, instanceID = Some ''frigate'',
      events = [example_event ''front_door'' True True], recordings = [], segments = [],
      metadata = no_metadata, expiry = None, cached = False\<rparr> =
     Some [\<lparr>media_id = ''event'', media_cameraID = ''front'', media_type = Snapshot,
            media_isFrigateEvent = True, media_startTime = None, media_endTime = None,
            media_favorite = None\<rparr>] \<and>
   generateMediaFromEvents example_ctx ((example_query Event [''front''])\<lparr>hasSnapshot := Some True\<rparr>)
     \<lparr>r_type = EventResults, engine = Frigate, instanceID = Some ''frigate'',
      events = [example_event ''front_door'' True False], recordings = [], segments = [],
      metadata = no_metadata, expiry = None, cached = False\<rparr> = Some []"
proof -
  let ?q = "example_query Event [''front'']"
  let ?qs = "(example_query Event [''front''])\<lparr>hasSnapshot := Some True\<rparr>"
  let ?r = "\<lparr>r_type = EventResults, engine = Frigate, instanceID = Some ''frigate'',
      events = [], recordings = [], segments = [],
      metadata = no_metadata, expiry = None, cached = False\<rparr>"
  let ?cfg = "\<lparr>client_id = ''frigate'', camera_name = Some ''front_door''\<rparr>"
  have cam: "getCameraIDMatch example_ctx ?q (instanceID ?r) c = Some ''front''"
            "getCameraIDMatch example_ctx ?qs (instanceID ?r) c = Some ''front''" for c
    by (simp_all add: getCameraIDMatch_def example_query_def)
  have cfg: "getQueryableCameraConfig example_ctx ''front'' = Some ?cfg"
    by (simp add: getQueryableCameraConfig_def example_ctx_def example_store_def)
  have f: "isFrigateEventQueryResults ?r" by (simp add: isFrigateEventQueryResults_def)
  have e: "generateMediaFromEvents example_ctx qq (?r\<lparr>events := []\<rparr>) = Some []" for qq
    by (simp add: generateMediaFromEvents_def isFrigateEventQueryResults_def List.map_filter_def)
  have mk: "createEventViewMedia example_ctx mt ''front'' ?cfg ev sl =
      Some \<lparr>media_id = event_id ev, media_cameraID = ''front'', media_type = mt,
            media_isFrigateEvent = True, media_startTime = None, media_endTime = None,
            media_favorite = None\<rparr>" for mt ev sl
    by (simp add: example_ctx_def)
  have a: "generateMediaFromEvents example_ctx ?q
             (?r\<lparr>events := [] @ example_event ''front_door'' True True # []\<rparr>) =
     Some [\<lparr>media_id = ''event'', media_cameraID = ''front'', media_type = Clip,
            media_isFrigateEvent = True, media_startTime = None, media_endTime = None,
            media_favorite = None\<rparr>]"
    using generateMediaFromEvents_media_type[where query = ?q
        and event = "example_event ''front_door'' True True" and ctx = example_ctx
        and results = ?r and cam = "''front''" and cameraConfig = ?cfg and mediaType = Clip
        and ?evs1.0 = "[]" and ?evs2.0 = "[]"] cam cfg f e mk
    by (simp add: truthy_def example_query_def example_event_def)
  have b: "generateMediaFromEvents example_ctx ?qs
             (?r\<lparr>events := [] @ example_event ''front_door'' True True # []\<rparr>) =
     Some [\<lparr>media_id = ''event'', media_cameraID = ''front'', media_type = Snapshot,
            media_isFrigateEvent = True, media_startTime = None, media_endTime = None,
            media_favorite = None\<rparr>]"
    using generateMediaFromEvents_media_type[where query = ?qs
        and event = "example_event ''front_door'' True True" and ctx = example_ctx
        and results = ?r and cam = "''front''" and cameraConfig = ?cfg and mediaType = Snapshot
        and ?evs1.0 = "[]" and ?evs2.0 = "[]"] cam cfg f e mk
    by (simp add: truthy_def example_query_def example_event_def)
  have c: "generateMediaFromEvents example_ctx ?qs
             (?r\<lparr>events := [] @ example_event ''front_door'' True False # []\<rparr>) = Some []"
    using generateMediaFromEvents_media_type[where query = ?qs
        and event = "example_event ''front_door'' True False" and ctx = example_ctx
        and results = ?r and ?evs1.0 = "[]" and ?evs2.0 = "[]"] e
    by (simp add: truthy_def example_query_def example_event_def)
  show ?thesis using a b c by simp
qed

text \<open>
  C9. When the retain response reports \<open>success = false\<close>, \<open>retainEvent\<close> fails with
  \<open>FrigateCardError\<close> (an error of its own kind) carrying the request and the response, and \<open>favoriteMedia\<close> leaves
  the media object as it was; when the response reports success, \<open>favoriteMedia\<close> (on a
  Frigate event) sets the favorite flag to the requested value.
\<close>

theorem retain_failure_is_error:
  "(ws_event_retain hass
       \<lparr>req_type = ''smarteyes-shop1/event/retain'', req_instance_id = clientID,
        req_event_id = eventID, retain = fav\<rparr> = Inr resp \<and> \<not> success resp \<longrightarrow>
     retainEvent ctx hass clientID eventID fav =
       Inl (FrigateCardError (localize ctx ''error.failed_retain'')
             \<lparr>request = \<lparr>req_type = ''smarteyes-shop1/event/retain'', req_instance_id = clientID,
                          req_event_id = eventID, retain = fav\<rparr>,
              response = resp\<rparr>)) \<and>
   (ws_event_retain hass
       \<lparr>req_type = ''smarteyes-shop1/event/retain'', req_instance_id = client_id cameraConfig,
        req_event_id = media_id media, retain = fav\<rparr> = Inr resp \<and> \<not> success resp \<longrightarrow>
     snd (favoriteMedia ctx hass cameraConfig media fav) = media \<and>
     (media_isFrigateEvent media \<longrightarrow>
        fst (favoriteMedia ctx hass cameraConfig media fav) =
          Inl (FrigateCardError (localize ctx ''error.failed_retain'')
             \<lparr>request = \<lparr>req_type = ''smarteyes-shop1/event/retain'',
                          req_instance_id = client_id cameraConfig,
                          req_event_id = media_id media, retain = fav\<rparr>,
              response = resp\<rparr>))) \<and>
   (media_isFrigateEvent media \<and>
    ws_event_retain hass
       \<lparr>req_type = ''smarteyes-shop1/event/retain'', req_instance_id = client_id cameraConfig,
        req_event_id = media_id media, retain = fav\<rparr> = Inr resp \<and> success resp \<longrightarrow>
     favoriteMedia ctx hass cameraConfig media fav = (Inr (), media\<lparr>media_favorite := Some fav\<rparr>)) \<and>
   FrigateCardError msg context \<noteq> TransportError msg2 \<and> FrigateCardError msg context \<noteq> TypeError"
  by (simp add: retainEvent_def favoriteMedia_def)

theorem retain_failure_is_error_witness:
  "favoriteMedia example_ctx (example_hass [] [] [] False)
     \<lparr>client_id = ''frigate'', camera_name = Some ''front_door''\<rparr> example_media True =
     (Inl (FrigateCardError ''error.failed_retain''
            \<lparr>request = \<lparr>req_type = ''smarteyes-shop1/event/retain'', req_instance_id = ''frigate'',
                         req_event_id = ''event'', retain = True\<rparr>,
             response = \<lparr>success = False, message = []\<rparr>\<rparr>),
      example_media) \<and>
   favoriteMedia example_ctx (example_hass [] [] [] True)
     \<lparr>client_id = ''frigate'', camera_name = Some ''front_door''\<rparr> example_media True =
     (Inr (), example_media\<lparr>media_favorite := Some True\<rparr>)"
  using
    retain_failure_is_error[of "example_hass [] [] [] False" "''frigate''" "''event''" True
      "\<lparr>success = False, message = []\<rparr>" example_ctx
      "\<lparr>client_id = ''frigate'', camera_name = Some ''front_door''\<rparr>" example_media]
    retain_failure_is_error[of "example_hass [] [] [] True" "''frigate''" "''event''" True
      "\<lparr>success = True, message = []\<rparr>" example_ctx
      "\<lparr>client_id = ''frigate'', camera_name = Some ''front_door''\<rparr>" example_media]
  by (simp add: example_hass_def example_media_def example_ctx_def prod_eq_iff)

lemma sent_limit:
  "nq \<in> set (getEvents_sent ctx cache engineOptions query) \<Longrightarrow>
   n_limit nq = Some (case limit query of None \<Rightarrow> EVENT_LIMIT_DEFAULT ctx | Some l \<Rightarrow> l)"
  by (auto simp: getEvents_sent_def getEvents_branches_def processInstanceQuery_begin_def
      nativeEventQuery_def Let_def split: EventBranch.splits if_splits option.splits)

lemma events_finish_simps:
  "processInstanceQuery_finish ctx hass engineOptions query (i, inst, EventSkipped) st = st"
  "processInstanceQuery_finish ctx hass engineOptions query (i, inst, EventCacheHit r) st = st"
  "processInstanceQuery_finish ctx hass engineOptions query (i, inst, EventFetch iq nq) (cache, out, err)
     = (case ws_events_get hass nq of
          Inl e \<Rightarrow> (cache, out, (case err of None \<Rightarrow> Some e | Some e0 \<Rightarrow> Some e0))
        | Inr evs \<Rightarrow>
            ((if useCacheOf engineOptions
              then requestCache_set cache query
                     \<lparr>r_type = EventResults, engine = Frigate, instanceID = Some inst,
                      events = evs, recordings = [], segments = [],
                      metadata = no_metadata,
                      expiry = Some (add_seconds (now ctx) EVENT_REQUEST_CACHE_MAX_AGE_SECONDS),
                      cached = True\<rparr>
                     (add_seconds (now ctx) EVENT_REQUEST_CACHE_MAX_AGE_SECONDS)
              else cache),
             jsmap_set out (SubQuery i, iq)
               \<lparr>r_type = EventResults, engine = Frigate, instanceID = Some inst,
                events = evs, recordings = [], segments = [],
                metadata = no_metadata,
                expiry = Some (add_seconds (now ctx) EVENT_REQUEST_CACHE_MAX_AGE_SECONDS),
                cached = False\<rparr>,
             err))"
  by (simp_all add: processInstanceQuery_finish_def requests_getEvents_def Let_def
      split: prod.splits sum.splits)

lemma getEvents_only_sent:
  assumes "\<forall>nq \<in> set (getEvents_sent ctx cache engineOptions query).
             ws_events_get hass1 nq = ws_events_get hass2 nq"
  shows "getEvents_run ctx hass1 cache engineOptions query =
         getEvents_run ctx hass2 cache engineOptions query"
proof -
  let ?bs = "getEvents_branches ctx cache engineOptions query"
  have step: "processInstanceQuery_finish ctx hass1 engineOptions query ib =
              processInstanceQuery_finish ctx hass2 engineOptions query ib"
    if "ib \<in> set (enumerate 0 ?bs)" for ib
  proof -
    obtain i inst b where ib: "ib = (i, inst, b)" by (cases ib) auto
    have i: "i < length ?bs" "?bs ! i = (inst, b)"
      using that ib by (auto simp: in_set_enumerate_eq)
    have m: "(inst, b) \<in> set ?bs" using nth_mem[OF i(1)] i(2) by simp
    show ?thesis
    proof (cases b)
      case (EventFetch iq nq)
      then have "nq \<in> set (getEvents_sent ctx cache engineOptions query)"
        using m by (force simp: getEvents_sent_def)
      then have "ws_events_get hass1 nq = ws_events_get hass2 nq" using assms by blast
      then show ?thesis using ib EventFetch
        by (intro ext) (auto simp: events_finish_simps)
    qed (simp_all add: ib events_finish_simps fun_eq_iff)
  qed
  show ?thesis
    unfolding getEvents_run_def Let_def
    by (rule fold_cong) (simp_all add: step)
qed

text \<open>
  C10. Every native event query that \<open>getEvents\<close> sends carries a limit: the caller's
  limit when the query has one, the engine's default event limit otherwise. (The sent
  queries are all that the backend is asked: two backends that answer them alike give
  the same run.)
\<close>

theorem getEvents_native_limit:
  "list_all (\<lambda>nq. n_limit nq = Some (case limit query of None \<Rightarrow> EVENT_LIMIT_DEFAULT ctx | Some l \<Rightarrow> l))
     (getEvents_sent ctx cache engineOptions query) \<and>
   ((\<forall>nq \<in> set (getEvents_sent ctx cache engineOptions query).
        ws_events_get hass1 nq = ws_events_get hass2 nq) \<longrightarrow>
      getEvents_run ctx hass1 cache engineOptions query =
      getEvents_run ctx hass2 cache engineOptions query)"
proof -
  have "list_all (\<lambda>nq. n_limit nq = Some (case limit query of None \<Rightarrow> EVENT_LIMIT_DEFAULT ctx | Some l \<Rightarrow> l))
     (getEvents_sent ctx cache engineOptions query)"
    unfolding list_all_iff using sent_limit by blast
  then show ?thesis using getEvents_only_sent by blast
qed

theorem getEvents_native_limit_witness:
  "getEvents_sent example_ctx [] None (example_query Event [''front'', ''garage'']) =
     [\<lparr>instance_id = Some ''frigate'', cameras = Some [''front_door''], labels = None,
       zones = None, sub_labels = None, after = None, before = None, n_limit = Some 10000,
       n_has_clip = None, n_has_snapshot = None, favorites = None\<rparr>,
      \<lparr>instance_id = Some ''frigate2'', cameras = Some [''garage''], labels = None,
       zones = None, sub_labels = None, after = None, before = None, n_limit = Some 10000,
       n_has_clip = None, n_has_snapshot = None, favorites = None\<rparr>] \<and>
   map n_limit (getEvents_sent example_ctx [] None
     ((example_query Event [''front'', ''garage''])\<lparr>limit := Some 0\<rparr>)) = [Some 0, Some 0]"
  using
    getEvents_native_limit[where query = "example_query Event [''front'', ''garage'']"
      and ctx = example_ctx and cache = "[]" and engineOptions = None]
    getEvents_native_limit[where
      query = "(example_query Event [''front'', ''garage''])\<lparr>limit := Some 0\<rparr>"
      and ctx = example_ctx and cache = "[]" and engineOptions = None]
  by (simp add: getEvents_sent_def getEvents_branches_def processInstanceQuery_begin_def
      nativeEventQuery_def buildInstanceToCameraIDMapFromQuery_def
      getFrigateCameraNamesForCameraIDs_def getQueryableCameraConfig_def instances_add_def
      set_add_def useCacheOf_def requestCache_get_def truthy_def
      example_ctx_def example_store_def example_query_def)

section \<open>Seek offsets\<close>

lemma seek_loop_sum:
  "seek_loop S T segs acc =
     acc + sum_list (map (\<lambda>seg.
             (if fromUnixTime (end_time seg) > T then T else fromUnixTime (end_time seg)) -
             (if fromUnixTime (start_time seg) < S then S else fromUnixTime (start_time seg)))
           (takeWhile (startsByTarget T) segs))"
  by (induction segs arbitrary: acc) (auto simp: Let_def startsByTarget_def)

lemma contribution_is_overlap:
  "S \<le> T \<Longrightarrow> segmentWithin S seg \<Longrightarrow> startsByTarget T seg \<Longrightarrow>
   (if fromUnixTime (end_time seg) > T then T else fromUnixTime (end_time seg)) -
   (if fromUnixTime (start_time seg) < S then S else fromUnixTime (start_time seg)) =
   overlapDuration S T seg"
  by (auto simp: overlapDuration_def segmentWithin_def startsByTarget_def fromUnixTime_def)

lemma seek_loop_overlap:
  assumes "S \<le> T" "list_all (segmentWithin S) segs"
  shows "seek_loop S T segs 0 = sum_list (map (overlapDuration S T) (takeWhile (startsByTarget T) segs))"
proof -
  have eq: "map (\<lambda>seg.
             (if fromUnixTime (end_time seg) > T then T else fromUnixTime (end_time seg)) -
             (if fromUnixTime (start_time seg) < S then S else fromUnixTime (start_time seg)))
           (takeWhile (startsByTarget T) segs) =
        map (overlapDuration S T) (takeWhile (startsByTarget T) segs)"
  proof (rule map_cong[OF refl])
    fix seg assume a: "seg \<in> set (takeWhile (startsByTarget T) segs)"
    then have "startsByTarget T seg" by (rule set_takeWhileD[THEN conjunct2])
    moreover have "seg \<in> set segs" using a by (rule set_takeWhileD[THEN conjunct1])
    then have "segmentWithin S seg" using assms(2) by (simp add: list_all_iff)
    ultimately show "(if fromUnixTime (end_time seg) > T then T else fromUnixTime (end_time seg)) -
             (if fromUnixTime (start_time seg) < S then S else fromUnixTime (start_time seg)) =
        overlapDuration S T seg"
      using assms(1) by (intro contribution_is_overlap)
  qed
  show ?thesis unfolding seek_loop_sum eq by simp
qed

lemma takeWhile_sorted_filter:
  "sorted (map start_time segs) \<Longrightarrow>
   takeWhile (startsByTarget T) segs = filter (startsByTarget T) segs"
proof (induction segs)
  case Nil
  then show ?case by simp
next
  case (Cons seg segs)
  show ?case
  proof (cases "startsByTarget T seg")
    case True
    then show ?thesis using Cons by simp
  next
    case False
    have "\<forall>x \<in> set segs. \<not> startsByTarget T x"
      using False Cons.prems by (auto simp: startsByTarget_def fromUnixTime_def)
    then have "filter (startsByTarget T) segs = []" by (simp add: filter_empty_conv)
    then show ?thesis using False by simp
  qed
qed

text \<open>
  C4 (amended). For a start \<open>S\<close> and a target \<open>T\<close> with \<open>S <= T\<close>, and segments none of
  which ends before it starts or before \<open>S\<close>, the seek-offset computation returns, in
  seconds, the sum of the overlap durations with the window from \<open>S\<close> to \<open>T\<close> over the
  leading segments that start at or before \<open>T\<close> (it stops at the first segment that
  starts after \<open>T\<close>; for segments sorted by start these are all segments that start at or
  before \<open>T\<close>). Without segments the result is null. \<open>getMediaSeekTime\<close> returns null
  when the target lies outside the media item's bounds or when the segment query returns
  null, and otherwise the offset computed from the segments of the first result.
\<close>

theorem seek_time_is_sum_of_overlaps:
  "(S \<le> T \<and> segs \<noteq> [] \<and> list_all (segmentWithin S) segs \<longrightarrow>
      getSeekTimeInSegments S T segs =
        Some (of_int (sum_list (map (overlapDuration S T) (takeWhile (startsByTarget T) segs))) / 1000)) \<and>
   (sorted (map start_time segs) \<longrightarrow>
      takeWhile (startsByTarget T) segs = filter (startsByTarget T) segs) \<and>
   getSeekTimeInSegments S T [] = None \<and>
   (media_startTime media = Some S \<and> media_endTime media = Some E \<and> (T < S \<or> E < T) \<longrightarrow>
      fst (getMediaSeekTime ctx hass segCache media T engineOptions) = Inr None) \<and>
   (media_startTime media = Some S \<and> media_endTime media = Some E \<and>
    fst (getRecordingSegments ctx hass segCache engineOptions
           \<lparr>rs_cameraIDs = [media_cameraID media], rs_start = S, rs_end = E\<rparr>) = Inr None \<longrightarrow>
      fst (getMediaSeekTime ctx hass segCache media T engineOptions) = Inr None) \<and>
   (media_startTime media = Some S \<and> media_endTime media = Some E \<and> S \<le> T \<and> T \<le> E \<and>
    fst (getRecordingSegments ctx hass segCache engineOptions
           \<lparr>rs_cameraIDs = [media_cameraID media], rs_start = S, rs_end = E\<rparr>)
      = Inr (Some ((k, v) # rest)) \<longrightarrow>
      fst (getMediaSeekTime ctx hass segCache media T engineOptions) =
        Inr (getSeekTimeInSegments S T (segments v)))"
proof -
  have a: "S \<le> T \<and> segs \<noteq> [] \<and> list_all (segmentWithin S) segs \<longrightarrow>
      getSeekTimeInSegments S T segs =
        Some (of_int (sum_list (map (overlapDuration S T) (takeWhile (startsByTarget T) segs))) / 1000)"
    using seek_loop_overlap[of S T segs] by (simp add: getSeekTimeInSegments_def)
  have b: "sorted (map start_time segs) \<longrightarrow>
      takeWhile (startsByTarget T) segs = filter (startsByTarget T) segs"
    using takeWhile_sorted_filter by blast
  have c: "getSeekTimeInSegments S T [] = None" by (simp add: getSeekTimeInSegments_def)
  have d: "media_startTime media = Some S \<and> media_endTime media = Some E \<and> (T < S \<or> E < T) \<longrightarrow>
      fst (getMediaSeekTime ctx hass segCache media T engineOptions) = Inr None"
    by (auto simp: getMediaSeekTime_def)
  have e: "media_startTime media = Some S \<and> media_endTime media = Some E \<and>
    fst (getRecordingSegments ctx hass segCache engineOptions
           \<lparr>rs_cameraIDs = [media_cameraID media], rs_start = S, rs_end = E\<rparr>) = Inr None \<longrightarrow>
      fst (getMediaSeekTime ctx hass segCache media T engineOptions) = Inr None"
    by (cases "getRecordingSegments ctx hass segCache engineOptions
           \<lparr>rs_cameraIDs = [media_cameraID media], rs_start = S, rs_end = E\<rparr>")
       (auto simp: getMediaSeekTime_def)
  have f: "media_startTime media = Some S \<and> media_endTime media = Some E \<and> S \<le> T \<and> T \<le> E \<and>
    fst (getRecordingSegments ctx hass segCache engineOptions
           \<lparr>rs_cameraIDs = [media_cameraID media], rs_start = S, rs_end = E\<rparr>)
      = Inr (Some ((k, v) # rest)) \<longrightarrow>
      fst (getMediaSeekTime ctx hass segCache media T engineOptions) =
        Inr (getSeekTimeInSegments S T (segments v))"
    by (cases "getRecordingSegments ctx hass segCache engineOptions
           \<lparr>rs_cameraIDs = [media_cameraID media], rs_start = S, rs_end = E\<rparr>")
       (auto simp: getMediaSeekTime_def)
  show ?thesis by (intro conjI; (use a b c d e f in blast))
qed

text \<open>
  The statement for all segments (the sum of the overlap durations, whatever the
  segments) fails
  for a segment that ends before the media item starts: it has no overlap with the
  window, and the loop subtracts the distance between its end and the media start.
\<close>

theorem seek_time_negative_counterexample:
  "getSeekTimeInSegments 1000000 1005000 [\<lparr>start_time = 980, end_time = 990, segment_id = ''s''\<rparr>]
     = Some (- 10) \<and>
   sum_list (map (overlapDuration 1000000 1005000)
     (takeWhile (startsByTarget 1005000)
        [\<lparr>start_time = 980, end_time = 990, segment_id = ''s''\<rparr>])) = 0"
  by (simp add: getSeekTimeInSegments_def overlapDuration_def startsByTarget_def fromUnixTime_def)

theorem seek_time_is_sum_of_overlaps_witness:
  "getSeekTimeInSegments 1700000000000 1700002300000 example_segments = Some 1500 \<and>
   sum_list (map (overlapDuration 1700000000000 1700002300000)
     (filter (startsByTarget 1700002300000) example_segments)) = 1500000 \<and>
   fst (getMediaSeekTime example_ctx (example_hass [] [] example_segments True) []
          example_media 1700002300000 None) = Inr (Some 1500) \<and>
   fst (getMediaSeekTime example_ctx (example_hass [] [] example_segments True) []
          example_media 1700003600001 None) = Inr None \<and>
   fst (getMediaSeekTime example_ctx (example_hass [] [] example_segments True) []
          (example_media\<lparr>media_cameraID := ''attic''\<rparr>) 1700002300000 None) = Inr None \<and>
   fst (getMediaSeekTime example_ctx (example_hass [] [] [] True) []
          example_media 1700002300000 None) = Inr None"
proof -
  have h1: "(1700000000000::int) \<le> 1700002300000 \<and> example_segments \<noteq> [] \<and>
            list_all (segmentWithin 1700000000000) example_segments"
    by (simp add: example_segments_def segmentWithin_def fromUnixTime_def)
  have h2: "sorted (map start_time example_segments)"
    by (simp add: example_segments_def)
  have s: "sum_list (map (overlapDuration 1700000000000 1700002300000)
     (filter (startsByTarget 1700002300000) example_segments)) = 1500000"
    by (simp add: example_segments_def overlapDuration_def startsByTarget_def fromUnixTime_def)
  have a: "getSeekTimeInSegments 1700000000000 1700002300000 example_segments = Some 1500"
    using seek_time_is_sum_of_overlaps[where S = 1700000000000 and T = 1700002300000
        and segs = example_segments] h1 h2 s
    by simp
  have b: "fst (getMediaSeekTime example_ctx (example_hass [] [] example_segments True) []
          example_media 1700002300000 None) = Inr (Some 1500)"
    by (simp add: seek_eval)
  have c: "fst (getMediaSeekTime example_ctx (example_hass [] [] example_segments True) []
          example_media 1700003600001 None) = Inr None"
    by (simp add: seek_eval)
  have d: "fst (getMediaSeekTime example_ctx (example_hass [] [] example_segments True) []
          (example_media\<lparr>media_cameraID := ''attic''\<rparr>) 1700002300000 None) = Inr None"
    by (simp add: seek_eval)
  have e: "fst (getMediaSeekTime example_ctx (example_hass [] [] [] True) []
          example_media 1700002300000 None) = Inr None"
    by (simp add: seek_eval)
  show ?thesis using a b c d e s by simp
qed

section \<open>Recordings\<close>

lemma set_map_filter_iff:
  "x \<in> set (List.map_filter f xs) \<longleftrightarrow> (\<exists>y \<in> set xs. f y = Some x)"
  by (induction xs) (auto simp: List.map_filter_simps split: option.splits)

lemma recordingsOfSummary_iff:
  "r \<in> set (recordingsOfSummary ctx query cam summary) \<longleftrightarrow>
     (\<exists>dayData \<in> set summary. \<exists>hourData \<in> set (hours dayData).
        recordingOfHour ctx query cam dayData hourData = Some r)"
  by (simp add: recordingsOfSummary_def set_map_filter_iff)

lemma recordingOfHour_Some:
  "recordingOfHour ctx query cam dayData hourData = Some r \<longleftrightarrow>
     r = \<lparr>cameraID = cam,
          startTime = startOfHour (zone ctx) (add_hours (day dayData) (hour hourData)),
          endTime = endOfHour (zone ctx) (add_hours (day dayData) (hour hourData)),
          rec_events = hour_events hourData\<rparr> \<and>
     (case q_start query of None \<Rightarrow> True | Some s \<Rightarrow> s \<le> startTime r) \<and>
     (case q_end query of None \<Rightarrow> True | Some e \<Rightarrow> endTime r \<le> e)"
  by (auto simp: recordingOfHour_def Let_def split: option.splits)

text \<open>
  In a zone of fixed offset, \<open>startOfHour\<close> and \<open>endOfHour\<close> are the bounds of the hour
  of the local clock that contains the instant.
\<close>

lemma hour_aligned_fixedZone:
  "(startOfHour (fixedZone off) d + off) mod 3600000 = 0 \<and>
   startOfHour (fixedZone off) d \<le> d \<and> d < startOfHour (fixedZone off) d + 3600000 \<and>
   endOfHour (fixedZone off) d = startOfHour (fixedZone off) d + 3599999"
proof -
  have "(d - (d + off) mod 3600000 + off) mod 3600000 = ((d + off) - (d + off) mod 3600000) mod 3600000"
    by (simp add: algebra_simps)
  also have "\<dots> = 0" by (simp add: minus_mod_eq_mult_div)
  finally show ?thesis by (simp add: startOfHour_def endOfHour_def fixedZone_def)
qed

text \<open>
  With daylight saving this fails for the hour that the clock repeats. In New York on
  5 November 2023 the instant 06:30 UTC reads 01:30 for the second time; its hour gets
  the bounds of the first time, 05:00 to 05:59:59.999 UTC. A summary of that day (from
  04:00 UTC, the local midnight) with the hours 1, 2 and 3 then gives the same bounds
  for the hours 1 and 2, and a query that starts at 06:00 UTC keeps the hour 3 only:
  the filter reads the bounds that the date library computed.
\<close>

lemma startOfHour_repeated_hour:
  "startOfHour newYorkZone 1699165800000 = 1699160400000 \<and>
   endOfHour newYorkZone 1699165800000 = 1699163999999"
  by (simp add: startOfHour_def endOfHour_def newYorkZone_def)

lemma recordingsOfSummary_repeated_hour:
  "recordingsOfSummary (example_ctx\<lparr>zone := newYorkZone\<rparr>) (example_query Recording [''front''])
     ''front''
     [\<lparr>day = 1699156800000,
       hours = [\<lparr>hour = 1, hour_events = 0\<rparr>, \<lparr>hour = 2, hour_events = 0\<rparr>,
                \<lparr>hour = 3, hour_events = 0\<rparr>]\<rparr>] =
     [\<lparr>cameraID = ''front'', startTime = 1699160400000, endTime = 1699163999999, rec_events = 0\<rparr>,
      \<lparr>cameraID = ''front'', startTime = 1699160400000, endTime = 1699163999999, rec_events = 0\<rparr>,
      \<lparr>cameraID = ''front'', startTime = 1699167600000, endTime = 1699171199999, rec_events = 0\<rparr>] \<and>
   recordingsOfSummary (example_ctx\<lparr>zone := newYorkZone\<rparr>)
     ((example_query Recording [''front''])\<lparr>q_start := Some 1699164000000\<rparr>) ''front''
     [\<lparr>day = 1699156800000,
       hours = [\<lparr>hour = 1, hour_events = 0\<rparr>, \<lparr>hour = 2, hour_events = 0\<rparr>,
                \<lparr>hour = 3, hour_events = 0\<rparr>]\<rparr>] =
     [\<lparr>cameraID = ''front'', startTime = 1699167600000, endTime = 1699171199999, rec_events = 0\<rparr>]"
  by (simp add: recordingsOfSummary_def recordingOfHour_def List.map_filter_def add_hours_def
      startOfHour_def endOfHour_def newYorkZone_def example_ctx_def example_query_def)


lemma jsmap_set_fresh: "k \<notin> fst ` set m \<Longrightarrow> jsmap_set m k v = m @ [(k, v)]"
  by (simp add: jsmap_set_def)

lemma recordings_hits_fold:
  "distinct (map fst ibs) \<Longrightarrow>
   (\<And>i cam q r k. (i, cam, RecordingCacheHit q r) \<in> set ibs \<Longrightarrow> k \<in> fst ` set out \<Longrightarrow> fst k \<noteq> SubQuery i) \<Longrightarrow>
   fold (\<lambda>(i, cam, b) out.
           case b of RecordingCacheHit q r \<Rightarrow> jsmap_set out (SubQuery i, q) r | _ \<Rightarrow> out) ibs out
   = out @ List.map_filter recordings_hit_entry ibs"
proof (induction ibs arbitrary: out)
  case Nil
  then show ?case by (simp add: List.map_filter_simps)
next
  case (Cons ib ibs)
  obtain i cam b where ib: "ib = (i, cam, b)" by (cases ib) auto
  have d: "distinct (map fst ibs)" "i \<notin> fst ` set ibs" using Cons.prems(1) ib by auto
  have p: "\<And>j cam' q' r' k. (j, cam', RecordingCacheHit q' r') \<in> set ibs \<Longrightarrow>
             k \<in> fst ` set out \<Longrightarrow> fst k \<noteq> SubQuery j"
    using Cons.prems(2) by (meson list.set_intros(2))
  have keep: "fold (\<lambda>(i, cam, b) out.
           case b of RecordingCacheHit q r \<Rightarrow> jsmap_set out (SubQuery i, q) r | _ \<Rightarrow> out) ibs out
          = out @ List.map_filter recordings_hit_entry ibs"
    by (rule Cons.IH[OF d(1) p])
  show ?case
  proof (cases b)
    case (RecordingCacheHit q r)
    have fresh: "(SubQuery i, q) \<notin> fst ` set out"
      using Cons.prems(2)[of i cam q r "(SubQuery i, q)"] ib RecordingCacheHit by auto
    have step: "jsmap_set out (SubQuery i, q) r = out @ [((SubQuery i, q), r)]"
      using fresh by (rule jsmap_set_fresh)
    have "fold (\<lambda>(i, cam, b) out.
           case b of RecordingCacheHit q r \<Rightarrow> jsmap_set out (SubQuery i, q) r | _ \<Rightarrow> out) ibs
             (out @ [((SubQuery i, q), r)])
          = (out @ [((SubQuery i, q), r)]) @ List.map_filter recordings_hit_entry ibs"
    proof (rule Cons.IH[OF d(1)])
      fix j cam' q' r' k
      assume a: "(j, cam', RecordingCacheHit q' r') \<in> set ibs"
         and k: "k \<in> fst ` set (out @ [((SubQuery i, q), r)])"
      have "j \<noteq> i" using a d(2) by force
      moreover have "k \<in> fst ` set out \<Longrightarrow> fst k \<noteq> SubQuery j"
        using Cons.prems(2)[of j cam' q' r' k] a by simp
      ultimately show "fst k \<noteq> SubQuery j" using k by auto
    qed
    moreover have "recordings_hit_entry ib = Some ((SubQuery i, q), r)"
      using ib RecordingCacheHit by (simp add: recordings_hit_entry_def)
    ultimately show ?thesis using ib RecordingCacheHit step
      by (simp add: List.map_filter_simps)
  next
    case RecordingSkipped
    have "recordings_hit_entry ib = None"
      using ib RecordingSkipped by (simp add: recordings_hit_entry_def)
    then show ?thesis using ib RecordingSkipped keep
      by (simp add: List.map_filter_simps)
  next
    case (RecordingFetch q c n)
    have "recordings_hit_entry ib = None"
      using ib RecordingFetch by (simp add: recordings_hit_entry_def)
    then show ?thesis using ib RecordingFetch keep
      by (simp add: List.map_filter_simps)
  qed
qed

lemma recordings_finish_simps:
  "recordings_processQuery_finish ctx hass engineOptions (i, cam, RecordingSkipped) st = st"
  "recordings_processQuery_finish ctx hass engineOptions (i, cam, RecordingCacheHit q r) st = st"
  "requests_getRecordingsSummary hass (client_id c) n = Inl e \<Longrightarrow>
   recordings_processQuery_finish ctx hass engineOptions (i, cam, RecordingFetch q c n) (cache, out, err)
     = (cache, out, (case err of None \<Rightarrow> Some e | Some e0 \<Rightarrow> Some e0))"
  "requests_getRecordingsSummary hass (client_id c) n = Inr summary \<Longrightarrow>
   recordings_processQuery_finish ctx hass engineOptions (i, cam, RecordingFetch q c n) (cache, out, err)
     = ((if useCacheOf engineOptions
         then requestCache_set cache q ((recordingQueryResults ctx q cam c summary)\<lparr>cached := True\<rparr>)
                (add_seconds (now ctx) RECORDING_SUMMARY_REQUEST_CACHE_MAX_AGE_SECONDS)
         else cache),
        jsmap_set out (SubQuery i, q) (recordingQueryResults ctx q cam c summary),
        err)"
  by (simp_all add: recordings_processQuery_finish_def Let_def split: prod.splits)

lemma recordings_finish_fold:
  "distinct (map fst ibs) \<Longrightarrow>
   (\<And>i cam q c n k. (i, cam, RecordingFetch q c n) \<in> set ibs \<Longrightarrow> k \<in> fst ` set out \<Longrightarrow> fst k \<noteq> SubQuery i) \<Longrightarrow>
   fst (snd (fold (recordings_processQuery_finish ctx hass engineOptions) ibs (cache, out, err)))
   = out @ List.map_filter (recordings_fetch_entry ctx hass) ibs"
proof (induction ibs arbitrary: cache out err)
  case Nil
  then show ?case by (simp add: List.map_filter_simps)
next
  case (Cons ib ibs)
  obtain i cam b where ib: "ib = (i, cam, b)" by (cases ib) auto
  have d: "distinct (map fst ibs)" "i \<notin> fst ` set ibs" using Cons.prems(1) ib by auto
  have p: "\<And>j cam' q' c' n' k. (j, cam', RecordingFetch q' c' n') \<in> set ibs \<Longrightarrow>
             k \<in> fst ` set out \<Longrightarrow> fst k \<noteq> SubQuery j"
    using Cons.prems(2) by (meson list.set_intros(2))
  have keep: "fst (snd (fold (recordings_processQuery_finish ctx hass engineOptions) ibs (cache', out, err')))
          = out @ List.map_filter (recordings_fetch_entry ctx hass) ibs" for cache' err'
    by (rule Cons.IH[OF d(1) p])
  show ?case
  proof (cases b)
    case (RecordingCacheHit q r)
    have "recordings_fetch_entry ctx hass ib = None"
      using ib RecordingCacheHit by (simp add: recordings_fetch_entry_def)
    then show ?thesis using ib RecordingCacheHit keep
      by (simp add: List.map_filter_simps recordings_finish_simps)
  next
    case RecordingSkipped
    have "recordings_fetch_entry ctx hass ib = None"
      using ib RecordingSkipped by (simp add: recordings_fetch_entry_def)
    then show ?thesis using ib RecordingSkipped keep
      by (simp add: List.map_filter_simps recordings_finish_simps)
  next
    case (RecordingFetch q c n)
    show ?thesis
    proof (cases "requests_getRecordingsSummary hass (client_id c) n")
      case (Inl e)
      have "recordings_fetch_entry ctx hass ib = None"
        using ib RecordingFetch Inl by (simp add: recordings_fetch_entry_def)
      then show ?thesis using ib RecordingFetch Inl keep
        by (simp add: List.map_filter_simps recordings_finish_simps)
    next
      case (Inr summary)
      let ?r = "recordingQueryResults ctx q cam c summary"
      have fresh: "(SubQuery i, q) \<notin> fst ` set out"
        using Cons.prems(2)[of i cam q c n "(SubQuery i, q)"] ib RecordingFetch by auto
      have step: "jsmap_set out (SubQuery i, q) ?r = out @ [((SubQuery i, q), ?r)]"
        using fresh by (rule jsmap_set_fresh)
      have rest: "fst (snd (fold (recordings_processQuery_finish ctx hass engineOptions) ibs
                 (cache', out @ [((SubQuery i, q), ?r)], err)))
          = (out @ [((SubQuery i, q), ?r)]) @ List.map_filter (recordings_fetch_entry ctx hass) ibs"
        for cache'
      proof (rule Cons.IH[OF d(1)])
        fix j cam' q' c' n' k
        assume a: "(j, cam', RecordingFetch q' c' n') \<in> set ibs"
           and k: "k \<in> fst ` set (out @ [((SubQuery i, q), ?r)])"
        have "j \<noteq> i" using a d(2) by force
        moreover have "k \<in> fst ` set out \<Longrightarrow> fst k \<noteq> SubQuery j"
          using Cons.prems(2)[of j cam' q' c' n' k] a by simp
        ultimately show "fst k \<noteq> SubQuery j" using k by auto
      qed
      have "recordings_fetch_entry ctx hass ib = Some ((SubQuery i, q), ?r)"
        using ib RecordingFetch Inr by (simp add: recordings_fetch_entry_def)
      then show ?thesis using ib RecordingFetch Inr step rest
        by (simp add: List.map_filter_simps recordings_finish_simps)
    qed
  qed
qed

lemma enumerate_same_index:
  "(i, x) \<in> set (enumerate n xs) \<Longrightarrow> (i, y) \<in> set (enumerate n xs) \<Longrightarrow> x = y"
  by (auto simp: in_set_enumerate_eq)

lemma getRecordings_run_output:
  "fst (snd (getRecordings_run ctx hass cache engineOptions query)) =
     List.map_filter recordings_hit_entry
       (enumerate 0 (getRecordings_branches ctx cache engineOptions query)) @
     List.map_filter (recordings_fetch_entry ctx hass)
       (enumerate 0 (getRecordings_branches ctx cache engineOptions query))"
proof -
  let ?ibs = "enumerate 0 (getRecordings_branches ctx cache engineOptions query)"
  have d: "distinct (map fst ?ibs)" by simp
  have hits: "fold (\<lambda>(i, cam, b) out.
           case b of RecordingCacheHit q r \<Rightarrow> jsmap_set out (SubQuery i, q) r | _ \<Rightarrow> out) ?ibs []
      = [] @ List.map_filter recordings_hit_entry ?ibs"
    by (rule recordings_hits_fold[OF d]) simp
  have fresh: "fst k \<noteq> SubQuery i"
    if a: "(i, cam, RecordingFetch q c n) \<in> set ?ibs"
      and k: "k \<in> fst ` set (List.map_filter recordings_hit_entry ?ibs)" for i cam q c n k
  proof
    assume e: "fst k = SubQuery i"
    from k obtain v where "(k, v) \<in> set (List.map_filter recordings_hit_entry ?ibs)" by auto
    then obtain ib where ib: "ib \<in> set ?ibs" "recordings_hit_entry ib = Some (k, v)"
      by (auto simp: set_map_filter_iff)
    then obtain j cam' q' r' where j: "ib = (j, cam', RecordingCacheHit q' r')" "k = (SubQuery j, q')"
      by (auto simp: recordings_hit_entry_def split: prod.splits RecordingBranch.splits)
    then have "j = i" using e by simp
    then have "(cam', RecordingCacheHit q' r') = (cam, RecordingFetch q c n)"
      using enumerate_same_index[of i "(cam', RecordingCacheHit q' r')" 0 _ "(cam, RecordingFetch q c n)"]
        ib(1) j(1) a by simp
    then show False by simp
  qed
  have "fst (snd (fold (recordings_processQuery_finish ctx hass engineOptions) ?ibs
            (cache, List.map_filter recordings_hit_entry ?ibs, None)))
      = List.map_filter recordings_hit_entry ?ibs @ List.map_filter (recordings_fetch_entry ctx hass) ?ibs"
    by (rule recordings_finish_fold[OF d]) (rule fresh)
  then show ?thesis using hits by (simp add: getRecordings_run_def Let_def)
qed

lemma getRecordings_results:
  "fst (getRecordings ctx hass cache engineOptions query) = Inr (Some results) \<Longrightarrow>
   results = List.map_filter recordings_hit_entry
       (enumerate 0 (getRecordings_branches ctx cache engineOptions query)) @
     List.map_filter (recordings_fetch_entry ctx hass)
       (enumerate 0 (getRecordings_branches ctx cache engineOptions query))"
  using getRecordings_run_output[of ctx hass cache engineOptions query]
  by (auto simp: getRecordings_def split: prod.splits option.splits if_splits)






section \<open>Hour identities\<close>

declare show_nat.simps [simp del]

lemma digit_char_eq: "d < 10 \<Longrightarrow> d' < 10 \<Longrightarrow> digit_char d = digit_char d' \<longleftrightarrow> d = d'"
  by (simp add: digit_char_def char_of_eq_iff take_bit_eq_mod)

lemma digit_char_not_sep:
  "d < 10 \<Longrightarrow> digit_char d \<noteq> CHR ''/'' \<and> digit_char d \<noteq> CHR ''-''"
proof -
  assume d: "d < 10"
  have s: "CHR ''/'' = char_of (47::nat)" "CHR ''-'' = char_of (45::nat)"
    by (simp_all add: char_of_def bit_simps)
  show ?thesis unfolding s digit_char_def using d
    by (simp add: char_of_eq_iff take_bit_eq_mod)
qed

lemma show_nat_chars:
  "c \<in> set (show_nat n) \<Longrightarrow> c \<noteq> CHR ''/'' \<and> c \<noteq> CHR ''-''"
proof (induction n rule: show_nat.induct)
  case (1 n)
  show ?case
  proof (cases "n < 10")
    case True
    then show ?thesis using 1(2) digit_char_not_sep[of n] by (simp add: show_nat.simps[of n])
  next
    case False
    then have "c \<in> set (show_nat (n div 10)) \<or> c = digit_char (n mod 10)"
      using 1(2) by (auto simp: show_nat.simps[of n])
    then show ?thesis using 1(1)[OF False] digit_char_not_sep[of "n mod 10"] by auto
  qed
qed

lemma show_nat_not_Nil: "show_nat n \<noteq> []"
  by (simp add: show_nat.simps[of n])

lemma show_nat_inj: "show_nat n = show_nat m \<Longrightarrow> n = m"
proof (induction n arbitrary: m rule: show_nat.induct)
  case (1 n)
  have l: "last (show_nat k) = digit_char (k mod 10)" for k
    by (simp add: show_nat.simps[of k])
  have b: "butlast (show_nat k) = (if k < 10 then [] else show_nat (k div 10))" for k
    by (simp add: show_nat.simps[of k])
  have "digit_char (n mod 10) = digit_char (m mod 10)" using 1(2) l by metis
  then have m10: "n mod 10 = m mod 10" by (simp add: digit_char_eq)
  have bb: "(if n < 10 then [] else show_nat (n div 10)) = (if m < 10 then [] else show_nat (m div 10))"
    using 1(2) b by metis
  show ?case
  proof (cases "n < 10")
    case True
    then have "m < 10" using bb show_nat_not_Nil[of "m div 10"] by (auto split: if_splits)
    then show ?thesis using True m10 by simp
  next
    case False
    then have m: "\<not> m < 10" using bb show_nat_not_Nil[of "n div 10"] by (auto split: if_splits)
    then have "show_nat (n div 10) = show_nat (m div 10)" using bb False by simp
    then have "n div 10 = m div 10" using 1(1)[OF False] by blast
    then show ?thesis using m10 by (metis div_mult_mod_eq)
  qed
qed

lemma show_int_chars: "CHR ''/'' \<notin> set (show_int i)"
  using show_nat_chars by (auto simp: show_int_def)

lemma show_int_inj: "show_int i = show_int j \<Longrightarrow> i = j"
proof -
  assume e: "show_int i = show_int j"
  have hd_digit: "hd (show_nat k) \<noteq> CHR ''-''" for k
    using show_nat_chars[of "hd (show_nat k)" k] show_nat_not_Nil[of k] by simp
  have neq: "CHR ''-'' # xs \<noteq> show_nat k" for xs k
    using hd_digit[of k] by (metis list.sel(1))
  show ?thesis
  proof (cases "i < 0")
    case True
    then have "j < 0" using e neq by (auto simp: show_int_def split: if_splits)
    then have "nat (- i) = nat (- j)" using e True show_nat_inj by (simp add: show_int_def)
    then show ?thesis using True \<open>j < 0\<close> by simp
  next
    case False
    then have j: "\<not> j < 0" using e neq[of _ "nat i"] by (auto simp: show_int_def split: if_splits)
    then have "nat i = nat j" using e False show_nat_inj by (simp add: show_int_def)
    then show ?thesis using False j by simp
  qed
qed

lemma sep_split:
  "x \<notin> set a \<Longrightarrow> x \<notin> set a' \<Longrightarrow> a @ x # b = a' @ x # b' \<Longrightarrow> a = a' \<and> b = b'"
proof -
  assume n: "x \<notin> set a" "x \<notin> set a'" and e: "a @ x # b = a' @ x # b'"
  have "takeWhile (\<lambda>y. y \<noteq> x) (a @ x # b) = a" using n(1) by (auto simp: takeWhile_tail)
  moreover have "takeWhile (\<lambda>y. y \<noteq> x) (a' @ x # b') = a'" using n(2) by (auto simp: takeWhile_tail)
  ultimately have "a = a'" using e by simp
  then show ?thesis using e by simp
qed

lemma getHourID_eq:
  "getHourID tz cam t1 = getHourID tz cam t2 \<longleftrightarrow>
     getDate tz t1 = getDate tz t2 \<and> getHours tz t1 = getHours tz t2"
proof
  assume "getHourID tz cam t1 = getHourID tz cam t2"
  then have "show_int (getDate tz t1) @ CHR ''/'' # show_int (getHours tz t1) =
             show_int (getDate tz t2) @ CHR ''/'' # show_int (getHours tz t2)"
    by (simp add: getHourID_def)
  then have "show_int (getDate tz t1) = show_int (getDate tz t2) \<and>
             show_int (getHours tz t1) = show_int (getHours tz t2)"
    by (rule sep_split[OF show_int_chars show_int_chars])
  then show "getDate tz t1 = getDate tz t2 \<and> getHours tz t1 = getHours tz t2"
    using show_int_inj by blast
next
  assume "getDate tz t1 = getDate tz t2 \<and> getHours tz t1 = getHours tz t2"
  then show "getHourID tz cam t1 = getHourID tz cam t2" by (simp add: getHourID_def)
qed

section \<open>Garbage collection of segments\<close>

lemma map_of_expireMatches:
  "map_of (segmentsCache_expireMatches sc cam p) c =
     map_option (\<lambda>e. if c = cam then e\<lparr>seg_stored := filter (\<lambda>s. \<not> p s) (seg_stored e)\<rparr> else e)
       (map_of sc c)"
  by (induction sc) (auto simp: segmentsCache_expireMatches_def)

lemma hourID_listed:
  "list_all (\<lambda>r. cameraID r = c) recs \<Longrightarrow>
   getHourID tz c (fromUnixTime (start_time seg))
     \<in> set (map (\<lambda>recording. getHourID tz (cameraID recording) (startTime recording)) recs)
   \<longleftrightarrow> dayAndHourListed tz recs seg"
proof -
  assume a: "list_all (\<lambda>r. cameraID r = c) recs"
  have "getHourID tz c (fromUnixTime (start_time seg))
          \<in> set (map (\<lambda>recording. getHourID tz (cameraID recording) (startTime recording)) recs)
        \<longleftrightarrow> (\<exists>r \<in> set recs. getHourID tz c (fromUnixTime (start_time seg)) =
                              getHourID tz (cameraID r) (startTime r))"
    by auto
  also have "\<dots> \<longleftrightarrow> (\<exists>r \<in> set recs. getHourID tz c (startTime r) =
                              getHourID tz c (fromUnixTime (start_time seg)))"
    using a unfolding list_all_iff by metis
  also have "\<dots> \<longleftrightarrow> dayAndHourListed tz recs seg"
    unfolding getHourID_eq by (simp add: dayAndHourListed_def list_ex_iff sameDayOfMonthAndHour_def)
  finally show ?thesis .
qed

text \<open>What one result of the recording query does to the stored segments of camera \<open>c\<close>.\<close>

lemma map_of_garbageCollect_result:
  "map_of (garbageCollect_result ctx ((ref, q), r) sc) c =
     map_option (\<lambda>e.
        if isFrigateRecordingQueryResults r \<and> (\<exists>others. cameraIDs q = c # others)
        then e\<lparr>seg_stored :=
                 filter (\<lambda>seg. getHourID (zone ctx) c (fromUnixTime (start_time seg))
                           \<in> set (map (\<lambda>recording. getHourID (zone ctx) (cameraID recording)
                                         (startTime recording)) (recordings r)))
                   (seg_stored e)\<rparr>
        else e)
       (map_of sc c)"
proof (cases "isFrigateRecordingQueryResults r")
  case False
  then show ?thesis by (cases "map_of sc c") (simp_all add: garbageCollect_result_def)
next
  case True
  show ?thesis
  proof (cases "cameraIDs q")
    case Nil
    then show ?thesis using True by (cases "map_of sc c") (simp_all add: garbageCollect_result_def)
  next
    case (Cons cam others)
    then show ?thesis using True
      by (cases "map_of sc c") (auto simp: garbageCollect_result_def map_of_expireMatches)
  qed
qed

lemma map_of_garbageCollect_other:
  "\<forall>qr \<in> set results. \<not> (isFrigateRecordingQueryResults (snd qr) \<and>
       (\<exists>others. cameraIDs (snd (fst qr)) = c # others)) \<Longrightarrow>
   map_of (fold (garbageCollect_result ctx) results sc) c = map_of sc c"
proof (induction results arbitrary: sc)
  case Nil
  then show ?case by simp
next
  case (Cons qr results)
  obtain ref q r where qr: "qr = ((ref, q), r)" by (cases qr) auto
  have n: "\<not> (isFrigateRecordingQueryResults r \<and> (\<exists>others. cameraIDs q = c # others))"
    using Cons.prems qr by simp
  have "map_of (garbageCollect_result ctx qr sc) c = map_of sc c"
    unfolding qr map_of_garbageCollect_result using n by (cases "map_of sc c") auto
  moreover have "map_of (fold (garbageCollect_result ctx) results (garbageCollect_result ctx qr sc)) c
        = map_of (garbageCollect_result ctx qr sc) c"
    using Cons.prems by (intro Cons.IH) simp
  ultimately show ?case by simp
qed

lemma map_of_garbageCollect_fold:
  assumes all: "\<forall>qr \<in> set results. (\<exists>others. cameraIDs (snd (fst qr)) = c # others) \<longrightarrow> qr = ((ref, q), r)"
      and r: "isFrigateRecordingQueryResults r" and q: "cameraIDs q = [c]"
      and e: "map_of sc c = Some e"
  shows "map_of (fold (garbageCollect_result ctx) results sc) c =
     Some (if ((ref, q), r) \<in> set results
           then e\<lparr>seg_stored :=
               filter (\<lambda>seg. getHourID (zone ctx) c (fromUnixTime (start_time seg))
                         \<in> set (map (\<lambda>recording. getHourID (zone ctx) (cameraID recording)
                                       (startTime recording)) (recordings r)))
                 (seg_stored e)\<rparr>
           else e)"
  using all e
proof (induction results arbitrary: sc e)
  case Nil
  then show ?case by simp
next
  case (Cons qr results)
  let ?P = "\<lambda>seg. getHourID (zone ctx) c (fromUnixTime (start_time seg))
                         \<in> set (map (\<lambda>recording. getHourID (zone ctx) (cameraID recording)
                                       (startTime recording)) (recordings r))"
  have all': "\<forall>qr \<in> set results. (\<exists>others. cameraIDs (snd (fst qr)) = c # others) \<longrightarrow> qr = ((ref, q), r)"
    using Cons.prems(1) by simp
  show ?case
  proof (cases "qr = ((ref, q), r)")
    case True
    have step: "map_of (garbageCollect_result ctx qr sc) c =
        Some (e\<lparr>seg_stored := filter ?P (seg_stored e)\<rparr>)"
      unfolding True map_of_garbageCollect_result using r q Cons.prems(2) by simp
    have "map_of (fold (garbageCollect_result ctx) results (garbageCollect_result ctx qr sc)) c =
      Some (if ((ref, q), r) \<in> set results
            then (e\<lparr>seg_stored := filter ?P (seg_stored e)\<rparr>)
                   \<lparr>seg_stored := filter ?P (seg_stored (e\<lparr>seg_stored := filter ?P (seg_stored e)\<rparr>))\<rparr>
            else e\<lparr>seg_stored := filter ?P (seg_stored e)\<rparr>)"
      by (rule Cons.IH[OF all' step])
    then show ?thesis using True by simp
  next
    case False
    obtain ref' q' r' where qr: "qr = ((ref', q'), r')" by (cases qr) auto
    have n: "\<not> (\<exists>others. cameraIDs q' = c # others)" using Cons.prems(1) False qr by auto
    have keep: "map_of (garbageCollect_result ctx qr sc) c = Some e"
      unfolding qr map_of_garbageCollect_result using n Cons.prems(2) by simp
    show ?thesis using Cons.IH[OF all' keep] False by simp
  qed
qed

lemma recordings_entry_origin:
  assumes "ib \<in> set (enumerate 0 (getRecordings_branches ctx cache engineOptions query))"
      and "recordings_hit_entry ib = Some ((ref, q), r) \<or>
           recordings_fetch_entry ctx hass ib = Some ((ref, q), r)"
  shows "\<exists>i < length (cameraIDs query). ib = (i, cameraIDs query ! i,
            recordings_processQuery_begin ctx cache engineOptions query (cameraIDs query ! i)) \<and>
          cameraIDs q = [cameraIDs query ! i]"
proof -
  obtain i cam b where ib: "ib = (i, cam, b)" by (cases ib) auto
  have i: "i < length (cameraIDs query)" "cam = cameraIDs query ! i"
    "b = recordings_processQuery_begin ctx cache engineOptions query cam"
    using assms(1) ib by (auto simp: in_set_enumerate_eq getRecordings_branches_def)
  have "q = query\<lparr>cameraIDs := [cam]\<rparr>"
    using assms(2) ib i(3)
    by (auto simp: recordings_hit_entry_def recordings_fetch_entry_def
        recordings_processQuery_begin_def Let_def
        split: RecordingBranch.splits option.splits if_splits sum.splits)
  then show ?thesis using ib i by simp
qed

lemma recordings_entry_unique:
  assumes d: "distinct (cameraIDs query)"
      and res: "fst (getRecordings ctx hass cache engineOptions query) = Inr (Some results)"
      and e1: "((ref1, q1), r1) \<in> set results" "cameraIDs q1 = c # o1"
      and e2: "((ref2, q2), r2) \<in> set results" "cameraIDs q2 = c # o2"
  shows "((ref1, q1), r1) = ((ref2, q2), r2)"
proof -
  let ?ibs = "enumerate 0 (getRecordings_branches ctx cache engineOptions query)"
  have src: "\<exists>ib \<in> set ?ibs. recordings_hit_entry ib = Some x \<or>
                recordings_fetch_entry ctx hass ib = Some x" if "x \<in> set results" for x
    using that getRecordings_results[OF res] by (auto simp: set_map_filter_iff)
  obtain ib1 where ib1: "ib1 \<in> set ?ibs"
    "recordings_hit_entry ib1 = Some ((ref1, q1), r1) \<or>
     recordings_fetch_entry ctx hass ib1 = Some ((ref1, q1), r1)"
    using src[OF e1(1)] by blast
  obtain ib2 where ib2: "ib2 \<in> set ?ibs"
    "recordings_hit_entry ib2 = Some ((ref2, q2), r2) \<or>
     recordings_fetch_entry ctx hass ib2 = Some ((ref2, q2), r2)"
    using src[OF e2(1)] by blast
  obtain i1 where i1: "i1 < length (cameraIDs query)"
    "ib1 = (i1, cameraIDs query ! i1,
            recordings_processQuery_begin ctx cache engineOptions query (cameraIDs query ! i1))"
    "cameraIDs q1 = [cameraIDs query ! i1]"
    using recordings_entry_origin[OF ib1] by blast
  obtain i2 where i2: "i2 < length (cameraIDs query)"
    "ib2 = (i2, cameraIDs query ! i2,
            recordings_processQuery_begin ctx cache engineOptions query (cameraIDs query ! i2))"
    "cameraIDs q2 = [cameraIDs query ! i2]"
    using recordings_entry_origin[OF ib2] by blast
  have "cameraIDs query ! i1 = cameraIDs query ! i2" using i1(3) i2(3) e1(2) e2(2) by simp
  then have "i1 = i2" using d i1(1) i2(1) by (simp add: nth_eq_iff_index_eq)
  then have same: "ib1 = ib2" using i1(2) i2(2) by simp
  have excl: "recordings_hit_entry ib = Some x \<Longrightarrow> recordings_fetch_entry ctx hass ib = Some y \<Longrightarrow> False"
    for ib x y
    by (auto simp: recordings_hit_entry_def recordings_fetch_entry_def
        split: prod.splits RecordingBranch.splits)
  show ?thesis using ib1(2) ib2(2) same excl by (metis option.inject)
qed

lemma set_limitRecordings: "set (limitRecordings q recs) \<subseteq> set recs"
proof (cases "limit q")
  case None
  then show ?thesis by (simp add: limitRecordings_def)
next
  case (Some l)
  have "set (take n (sort_key (\<lambda>r. - startTime r) recs)) \<subseteq> set recs" for n
    using set_take_subset[of n "sort_key (\<lambda>r. - startTime r) recs"] by simp
  then show ?thesis using Some by (simp add: limitRecordings_def slice0_def)
qed

lemma recordingQueryResults_wellformed:
  "isFrigateRecordingQueryResults (recordingQueryResults ctx q cam cameraConfig summary) \<and>
   list_all (\<lambda>r. cameraID r = cam) (recordings (recordingQueryResults ctx q cam cameraConfig summary))"
proof -
  have "cameraID r = cam" if "r \<in> set (recordingsOfSummary ctx q cam summary)" for r
    using that unfolding recordingsOfSummary_iff recordingOfHour_Some by auto
  then have "\<forall>r \<in> set (limitRecordings q (recordingsOfSummary ctx q cam summary)). cameraID r = cam"
    using set_limitRecordings by blast
  then show ?thesis
    by (simp add: recordingQueryResults_def isFrigateRecordingQueryResults_def list_all_iff)
qed

text \<open>
  What a garbage-collection pass does, in every time zone. It asks \<open>getRecordings\<close> for
  the cameras of the segment cache. For a camera for which the pass got a recording list
  (a Frigate recording result whose recordings are that camera's, as every result that
  \<open>getRecordings\<close> builds is), a cached segment remains if and only if its start agrees
  on the day of the month and on the hour of the day with the start of some recording
  in the list; every other segment of the camera is evicted, and the camera's coverage
  record is unchanged.
\<close>

lemma garbageCollect_keeps_same_day_and_hour:
  assumes "distinct (map fst segCache)"
      and "fst (getRecordings ctx hass cache None
                  (recordingQueryFor (segmentsCache_getCameraIDs segCache))) = Inr (Some results)"
      and "((ref, q), result) \<in> set results" and "cameraIDs q = [c]"
      and "isFrigateRecordingQueryResults result"
      and "list_all (\<lambda>r. cameraID r = c) (recordings result)"
      and "map_of segCache c = Some e"
  shows "fst (garbageCollectSegments ctx hass cache segCache) = Inr () \<and>
         map_of (snd (snd (garbageCollectSegments ctx hass cache segCache))) c =
           Some \<lparr>seg_ranges = seg_ranges e,
                 seg_stored = filter (dayAndHourListed (zone ctx) (recordings result)) (seg_stored e)\<rparr>"
proof -
  let ?query = "recordingQueryFor (segmentsCache_getCameraIDs segCache)"
  have d: "distinct (cameraIDs ?query)"
    using assms(1) by (simp add: recordingQueryFor_def segmentsCache_getCameraIDs_def)
  have uniq: "\<forall>qr \<in> set results. (\<exists>others. cameraIDs (snd (fst qr)) = c # others)
                 \<longrightarrow> qr = ((ref, q), result)"
  proof (intro ballI impI)
    fix qr assume m: "qr \<in> set results" and o: "\<exists>others. cameraIDs (snd (fst qr)) = c # others"
    obtain ref' q' r' where qr: "qr = ((ref', q'), r')" by (cases qr) auto
    obtain others where "cameraIDs q' = c # others" using o qr by auto
    then show "qr = ((ref, q), result)"
      using recordings_entry_unique[OF d assms(2), of ref' q' r' c others ref q result "[]"]
        m qr assms(3,4) by simp
  qed
  have filt: "filter (\<lambda>seg. getHourID (zone ctx) c (fromUnixTime (start_time seg))
                         \<in> set (map (\<lambda>recording. getHourID (zone ctx) (cameraID recording)
                                       (startTime recording)) (recordings result)))
                 (seg_stored e) =
              filter (dayAndHourListed (zone ctx) (recordings result)) (seg_stored e)"
    using hourID_listed[OF assms(6)] by (intro filter_cong) auto
  have m: "map_of (fold (garbageCollect_result ctx) results segCache) c =
      Some (e\<lparr>seg_stored := filter (dayAndHourListed (zone ctx) (recordings result)) (seg_stored e)\<rparr>)"
    using map_of_garbageCollect_fold[OF uniq assms(5) assms(4) assms(7), of ctx] assms(3) filt
    by simp
  obtain x cache1 where g: "getRecordings ctx hass cache None ?query = (x, cache1)"
    by (cases "getRecordings ctx hass cache None ?query") auto
  then have x: "x = Inr (Some results)" using assms(2) by simp
  have "garbageCollectSegments ctx hass cache segCache =
          (Inr (), cache1, fold (garbageCollect_result ctx) results segCache)"
    using g x by (simp add: garbageCollectSegments_def Let_def)
  then show ?thesis using m by (cases e) simp
qed

text \<open>
  C3. A cached segment can remain although the hour that contains it is not in the
  recording list. The segment cache of camera \<open>front\<close> holds a segment that starts on
  14 October 2023 at 02:10 UTC and segments in the hours 1, 2 and 5 of 14 November 2023;
  the backend lists recordings for the hours 2 to 4 of 14 November only (the local zone
  is UTC). The pass evicts the segments of the hours 1 and 5 and keeps the segment of
  hour 2; it also keeps the segment of October, which starts within the hour of no
  listed recording: its hour identity has the day of the month and the hour of the day
  only, and those are 14 and 2 in both months.
\<close>

theorem garbage_collection_keeps_segment_of_unlisted_hour:
  "fst (getRecordings example_ctx (example_hass [] example_summary_2_to_4 [] True) [] None
          (recordingQueryFor (segmentsCache_getCameraIDs example_old_segments_cache))) =
     Inr (Some [((SubQuery 0, recordingQueryFor [''front'']),
                 \<lparr>r_type = RecordingResults, engine = Frigate, instanceID = Some ''frigate'',
                  events = [],
                  recordings = [example_recording ''front'' 2 3, example_recording ''front'' 3 0,
                                example_recording ''front'' 4 1],
                  segments = [], metadata = no_metadata, expiry = Some 1700000060000,
                  cached = False\<rparr>)]) \<and>
   map_of (snd (snd (garbageCollectSegments example_ctx
                      (example_hass [] example_summary_2_to_4 [] True) []
                      example_old_segments_cache)))
     ''front'' =
     Some \<lparr>seg_ranges = [\<lparr>rstart = 1697241600000, rend = 1699941600000\<rparr>],
           seg_stored = [example_old_segment, example_segment 2]\<rparr> \<and>
   hourInList [example_recording ''front'' 2 3, example_recording ''front'' 3 0,
               example_recording ''front'' 4 1] (example_segment 2) \<and>
   \<not> hourInList [example_recording ''front'' 2 3, example_recording ''front'' 3 0,
                 example_recording ''front'' 4 1] example_old_segment"
proof -
  let ?hass = "example_hass [] example_summary_2_to_4 [] True"
  let ?q = "recordingQueryFor [''front'']"
  let ?recs = "[example_recording ''front'' 2 3, example_recording ''front'' 3 0,
                example_recording ''front'' 4 1]"
  let ?result = "\<lparr>r_type = RecordingResults, engine = Frigate, instanceID = Some ''frigate'',
                  events = [], recordings = ?recs,
                  segments = [], metadata = no_metadata, expiry = Some 1700000060000,
                  cached = False\<rparr>"
  let ?e = "\<lparr>seg_ranges = [\<lparr>rstart = 1697241600000, rend = 1699941600000\<rparr>],
        seg_stored = [example_old_segment, example_segment 1, example_segment 2,
                      example_segment 5]\<rparr>"
  have h1: "distinct (map fst example_old_segments_cache)"
    by (simp add: example_old_segments_cache_def)
  have h2: "fst (getRecordings example_ctx ?hass [] None
                  (recordingQueryFor (segmentsCache_getCameraIDs example_old_segments_cache)))
            = Inr (Some [((SubQuery 0, ?q), ?result)])"
    by (simp add: recordings_eval recordingQueryFor_def segmentsCache_getCameraIDs_def
        example_old_segments_cache_def example_summary_2_to_4_def)
  have h3: "((SubQuery 0, ?q), ?result) \<in> set [((SubQuery 0, ?q), ?result)]" by simp
  have h4: "cameraIDs ?q = [''front'']" by (simp add: recordingQueryFor_def)
  have h5: "isFrigateRecordingQueryResults ?result"
    by (simp add: isFrigateRecordingQueryResults_def)
  have h6: "list_all (\<lambda>r. cameraID r = ''front'') (recordings ?result)"
    by (simp add: example_recording_def)
  have h7: "map_of example_old_segments_cache ''front'' = Some ?e"
    by (simp add: example_old_segments_cache_def)
  have f: "filter (dayAndHourListed (zone example_ctx) (recordings ?result)) (seg_stored ?e) =
      [example_old_segment, example_segment 2]"
    by code_simp
  have m: "map_of (snd (snd (garbageCollectSegments example_ctx ?hass [] example_old_segments_cache)))
     ''front'' =
     Some \<lparr>seg_ranges = [\<lparr>rstart = 1697241600000, rend = 1699941600000\<rparr>],
           seg_stored = [example_old_segment, example_segment 2]\<rparr>"
    using garbageCollect_keeps_same_day_and_hour[OF h1 h2 h3 h4 h5 h6 h7] f by simp
  have s1: "hourInList ?recs (example_segment 2)" by code_simp
  have s2: "\<not> hourInList ?recs example_old_segment" by code_simp
  show ?thesis using h2 m s1 s2 by (intro conjI)
qed

section \<open>Null results\<close>

lemma getEvents_null_iff:
  "(fst (getEvents ctx hass cache engineOptions query) = Inr None \<longleftrightarrow>
      snd (snd (getEvents_run ctx hass cache engineOptions query)) = None \<and>
      fst (snd (getEvents_run ctx hass cache engineOptions query)) = []) \<and>
   (fst (getEvents ctx hass cache engineOptions query) = Inr (Some m) \<longleftrightarrow>
      snd (snd (getEvents_run ctx hass cache engineOptions query)) = None \<and>
      fst (snd (getEvents_run ctx hass cache engineOptions query)) = m \<and> m \<noteq> [])"
  by (cases "getEvents_run ctx hass cache engineOptions query")
     (auto simp: getEvents_def split: option.splits)

lemma getRecordings_null_iff:
  "(fst (getRecordings ctx hass cache engineOptions query) = Inr None \<longleftrightarrow>
      snd (snd (getRecordings_run ctx hass cache engineOptions query)) = None \<and>
      fst (snd (getRecordings_run ctx hass cache engineOptions query)) = []) \<and>
   (fst (getRecordings ctx hass cache engineOptions query) = Inr (Some m) \<longleftrightarrow>
      snd (snd (getRecordings_run ctx hass cache engineOptions query)) = None \<and>
      fst (snd (getRecordings_run ctx hass cache engineOptions query)) = m \<and> m \<noteq> [])"
  by (cases "getRecordings_run ctx hass cache engineOptions query")
     (auto simp: getRecordings_def split: option.splits)

lemma getRecordingSegments_null_iff:
  "(fst (getRecordingSegments ctx hass segCache engineOptions sq) = Inr None \<longleftrightarrow>
      snd (snd (getRecordingSegments_run ctx hass segCache engineOptions sq)) = None \<and>
      fst (snd (getRecordingSegments_run ctx hass segCache engineOptions sq)) = []) \<and>
   (fst (getRecordingSegments ctx hass segCache engineOptions sq) = Inr (Some sm) \<longleftrightarrow>
      snd (snd (getRecordingSegments_run ctx hass segCache engineOptions sq)) = None \<and>
      fst (snd (getRecordingSegments_run ctx hass segCache engineOptions sq)) = sm \<and> sm \<noteq> [])"
  by (cases "getRecordingSegments_run ctx hass segCache engineOptions sq")
     (auto simp: getRecordingSegments_def split: option.splits)

lemma no_instances:
  "\<forall>cam \<in> set cams. getQueryableCameraConfig ctx cam = None \<Longrightarrow>
   fold (\<lambda>cam out.
             case getQueryableCameraConfig ctx cam of
               None \<Rightarrow> out
             | Some cameraConfig \<Rightarrow>
                 if client_id cameraConfig \<noteq> [] then instances_add out (client_id cameraConfig) cam
                 else out) cams out = out"
  by (induction cams arbitrary: out) auto

lemma getEvents_no_instances:
  "buildInstanceToCameraIDMapFromQuery ctx (cameraIDs query) = [] \<Longrightarrow>
   getEvents ctx hass cache engineOptions query = (Inr None, cache)"
  by (simp add: getEvents_def getEvents_run_def getEvents_branches_def)

lemma getEvents_unresolved:
  "\<forall>cam \<in> set (cameraIDs query). getQueryableCameraConfig ctx cam = None \<Longrightarrow>
   getEvents ctx hass cache engineOptions query = (Inr None, cache)"
  by (rule getEvents_no_instances) (simp add: buildInstanceToCameraIDMapFromQuery_def no_instances)

lemma recordings_hits_skipped:
  "\<forall>ib \<in> set ibs. snd (snd ib) = RecordingSkipped \<Longrightarrow>
   fold (\<lambda>(i, cam, b) out.
           case b of RecordingCacheHit q r \<Rightarrow> jsmap_set out (SubQuery i, q) r | _ \<Rightarrow> out) ibs out = out"
  by (induction ibs arbitrary: out) auto

lemma recordings_finish_skipped:
  "\<forall>ib \<in> set ibs. snd (snd ib) = RecordingSkipped \<Longrightarrow>
   fold (recordings_processQuery_finish ctx hass engineOptions) ibs st = st"
proof (induction ibs arbitrary: st)
  case Nil
  then show ?case by simp
next
  case (Cons ib ibs)
  obtain i cam b where ib: "ib = (i, cam, b)" by (cases ib) auto
  then have "b = RecordingSkipped" using Cons.prems by simp
  then have "recordings_processQuery_finish ctx hass engineOptions ib st = st"
    using ib by (simp add: recordings_finish_simps)
  then show ?case using Cons by simp
qed

lemma getRecordings_all_skipped:
  assumes "\<forall>cam \<in> set (cameraIDs query).
             recordings_processQuery_begin ctx cache engineOptions query cam = RecordingSkipped"
  shows "getRecordings ctx hass cache engineOptions query = (Inr None, cache)"
proof -
  let ?ibs = "enumerate 0 (getRecordings_branches ctx cache engineOptions query)"
  have s: "\<forall>ib \<in> set ?ibs. snd (snd ib) = RecordingSkipped"
    using assms by (auto simp: in_set_enumerate_eq getRecordings_branches_def)
  have "getRecordings_run ctx hass cache engineOptions query = (cache, [], None)"
    unfolding getRecordings_run_def Let_def
    by (simp only: recordings_hits_skipped[OF s] recordings_finish_skipped[OF s])
  then show ?thesis by (simp add: getRecordings_def)
qed

lemma segments_finish_simps:
  "segments_processQuery_finish hass engineOptions (i, cam, SegmentsSkipped) st = st"
  "segments_processQuery_finish hass engineOptions (i, cam, SegmentsCacheHit q r) st = st"
  by (simp_all add: segments_processQuery_finish_def split: prod.splits)

lemma segments_hits_skipped:
  "\<forall>ib \<in> set ibs. snd (snd ib) = SegmentsSkipped \<Longrightarrow>
   fold (\<lambda>(i, cam, b) out.
           case b of SegmentsCacheHit q r \<Rightarrow> jsmap_set out (SubQuery i, q) r | _ \<Rightarrow> out) ibs out = out"
  by (induction ibs arbitrary: out) auto

lemma segments_finish_skipped:
  "\<forall>ib \<in> set ibs. snd (snd ib) = SegmentsSkipped \<Longrightarrow>
   fold (segments_processQuery_finish hass engineOptions) ibs st = st"
proof (induction ibs arbitrary: st)
  case Nil
  then show ?case by simp
next
  case (Cons ib ibs)
  obtain i cam b where ib: "ib = (i, cam, b)" by (cases ib) auto
  then have "b = SegmentsSkipped" using Cons.prems by simp
  then have "segments_processQuery_finish hass engineOptions ib st = st"
    using ib by (simp add: segments_finish_simps)
  then show ?case using Cons by simp
qed

lemma getRecordingSegments_unresolved:
  assumes "\<forall>cam \<in> set (rs_cameraIDs sq). getQueryableCameraConfig ctx cam = None"
  shows "getRecordingSegments ctx hass segCache engineOptions sq = (Inr None, segCache)"
proof -
  let ?ibs = "enumerate 0 (getRecordingSegments_branches ctx segCache engineOptions sq)"
  have s: "\<forall>ib \<in> set ?ibs. snd (snd ib) = SegmentsSkipped"
    using assms
    by (auto simp: in_set_enumerate_eq getRecordingSegments_branches_def
        segments_processQuery_begin_def)
  have "getRecordingSegments_run ctx hass segCache engineOptions sq = (segCache, [], None)"
    unfolding getRecordingSegments_run_def Let_def
    by (simp only: segments_hits_skipped[OF s] segments_finish_skipped[OF s])
  then show ?thesis by (simp add: getRecordingSegments_def)
qed

lemma getMediaMetadata_never_null:
  "fst (getMediaMetadata ctx hass cache engineOptions query) \<noteq> Inr None \<and>
   (fst (getMediaMetadata ctx hass cache engineOptions query) = Inr (Some m) \<longrightarrow>
      (\<exists>r. m = [((CallerQuery, query), r)]))"
  by (auto simp: getMediaMetadata_def jsmap_set_def Let_def split: option.splits prod.splits)

text \<open>
  C2 (amended). \<open>getEvents\<close>, \<open>getRecordings\<close> and \<open>getRecordingSegments\<close> return null
  exactly when their output map is empty once all branches have settled without a
  failure (so when the camera set is empty, or when no camera resolves to a sub-query),
  and a map they return is never empty. \<open>getMediaMetadata\<close> never returns null: the map
  it returns has exactly one entry, under the caller's query.
\<close>

theorem federated_queries_null_iff_empty:
  "(fst (getEvents ctx hass cache engineOptions query) = Inr None \<longleftrightarrow>
      snd (snd (getEvents_run ctx hass cache engineOptions query)) = None \<and>
      fst (snd (getEvents_run ctx hass cache engineOptions query)) = []) \<and>
   (fst (getEvents ctx hass cache engineOptions query) = Inr (Some m) \<longrightarrow>
      m \<noteq> [] \<and> fst (snd (getEvents_run ctx hass cache engineOptions query)) = m) \<and>
   (fst (getRecordings ctx hass cache engineOptions query) = Inr None \<longleftrightarrow>
      snd (snd (getRecordings_run ctx hass cache engineOptions query)) = None \<and>
      fst (snd (getRecordings_run ctx hass cache engineOptions query)) = []) \<and>
   (fst (getRecordings ctx hass cache engineOptions query) = Inr (Some m) \<longrightarrow>
      m \<noteq> [] \<and> fst (snd (getRecordings_run ctx hass cache engineOptions query)) = m) \<and>
   (fst (getRecordingSegments ctx hass segCache engineOptions sq) = Inr None \<longleftrightarrow>
      snd (snd (getRecordingSegments_run ctx hass segCache engineOptions sq)) = None \<and>
      fst (snd (getRecordingSegments_run ctx hass segCache engineOptions sq)) = []) \<and>
   (fst (getRecordingSegments ctx hass segCache engineOptions sq) = Inr (Some sm) \<longrightarrow>
      sm \<noteq> [] \<and> fst (snd (getRecordingSegments_run ctx hass segCache engineOptions sq)) = sm) \<and>
   (cameraIDs query = [] \<longrightarrow>
      fst (getEvents ctx hass cache engineOptions query) = Inr None \<and>
      fst (getRecordings ctx hass cache engineOptions query) = Inr None) \<and>
   (rs_cameraIDs sq = [] \<longrightarrow>
      fst (getRecordingSegments ctx hass segCache engineOptions sq) = Inr None) \<and>
   ((\<forall>cam \<in> set (cameraIDs query). getQueryableCameraConfig ctx cam = None) \<longrightarrow>
      fst (getEvents ctx hass cache engineOptions query) = Inr None) \<and>
   ((\<forall>cam \<in> set (cameraIDs query).
        recordings_processQuery_begin ctx cache engineOptions query cam = RecordingSkipped) \<longrightarrow>
      fst (getRecordings ctx hass cache engineOptions query) = Inr None) \<and>
   ((\<forall>cam \<in> set (rs_cameraIDs sq). getQueryableCameraConfig ctx cam = None) \<longrightarrow>
      fst (getRecordingSegments ctx hass segCache engineOptions sq) = Inr None) \<and>
   fst (getMediaMetadata ctx hass cache engineOptions query) \<noteq> Inr None \<and>
   (fst (getMediaMetadata ctx hass cache engineOptions query) = Inr (Some m) \<longrightarrow>
      (\<exists>r. m = [((CallerQuery, query), r)]))"
proof -
  have e0: "cameraIDs query = [] \<longrightarrow>
      fst (getEvents ctx hass cache engineOptions query) = Inr None \<and>
      fst (getRecordings ctx hass cache engineOptions query) = Inr None"
    using getEvents_unresolved[of query ctx hass cache engineOptions]
      getRecordings_all_skipped[of query ctx cache engineOptions hass] by simp
  have s0: "rs_cameraIDs sq = [] \<longrightarrow>
      fst (getRecordingSegments ctx hass segCache engineOptions sq) = Inr None"
    using getRecordingSegments_unresolved[of sq ctx hass segCache engineOptions] by simp
  have e1: "(\<forall>cam \<in> set (cameraIDs query). getQueryableCameraConfig ctx cam = None) \<longrightarrow>
      fst (getEvents ctx hass cache engineOptions query) = Inr None"
    using getEvents_unresolved[of query ctx hass cache engineOptions] by simp
  have r1: "(\<forall>cam \<in> set (cameraIDs query).
        recordings_processQuery_begin ctx cache engineOptions query cam = RecordingSkipped) \<longrightarrow>
      fst (getRecordings ctx hass cache engineOptions query) = Inr None"
    using getRecordings_all_skipped[of query ctx cache engineOptions hass] by simp
  have s1: "(\<forall>cam \<in> set (rs_cameraIDs sq). getQueryableCameraConfig ctx cam = None) \<longrightarrow>
      fst (getRecordingSegments ctx hass segCache engineOptions sq) = Inr None"
    using getRecordingSegments_unresolved[of sq ctx hass segCache engineOptions] by simp
  show ?thesis
    by (intro conjI;
        (use e0 s0 e1 r1 s1
           getEvents_null_iff[of ctx hass cache engineOptions query m]
           getRecordings_null_iff[of ctx hass cache engineOptions query m]
           getRecordingSegments_null_iff[of ctx hass segCache engineOptions sq sm]
           getMediaMetadata_never_null[of ctx hass cache engineOptions query m] in blast))
qed

theorem federated_queries_null_iff_empty_witness:
  "fst (getEvents example_ctx (example_hass [] [] [] True) [] None (example_query Event [])) = Inr None \<and>
   fst (getEvents example_ctx (example_hass [] [] [] True) [] None (example_query Event [''attic'']))
     = Inr None \<and>
   map (snd \<circ> fst)
     (fst (snd (getEvents_run example_ctx (example_hass [] [] [] True) [] None
                  (example_query Event [''front'', ''garage''])))) =
     [example_query Event [''front''], example_query Event [''garage'']] \<and>
   fst (getRecordings example_ctx (example_hass [] [] [] True) [] None
          (example_query Recording [''attic''])) = Inr None \<and>
   fst (getRecordingSegments example_ctx (example_hass [] [] [] True) [] None
          \<lparr>rs_cameraIDs = [], rs_start = 0, rs_end = 1\<rparr>) = Inr None"
proof -
  let ?hass = "example_hass [] [] [] True"
  have a: "cameraIDs (example_query Event []) = []" by (simp add: example_query_def)
  have b: "\<forall>cam \<in> set (cameraIDs (example_query Event [''attic''])).
             getQueryableCameraConfig example_ctx cam = None"
    by (simp add: example_query_def getQueryableCameraConfig_def example_ctx_def example_store_def)
  have c: "\<forall>cam \<in> set (cameraIDs (example_query Recording [''attic''])).
        recordings_processQuery_begin example_ctx [] None (example_query Recording [''attic'']) cam
          = RecordingSkipped"
    by (simp add: recordings_eval)
  have d: "rs_cameraIDs \<lparr>rs_cameraIDs = [], rs_start = 0, rs_end = 1\<rparr> = []" by simp
  have e: "map (snd \<circ> fst)
     (fst (snd (getEvents_run example_ctx ?hass [] None
                  (example_query Event [''front'', ''garage''])))) =
     [example_query Event [''front''], example_query Event [''garage'']]"
    by (simp add: events_eval)
  show ?thesis
    using a b c d e
      federated_queries_null_iff_empty[where ctx = example_ctx and hass = ?hass and cache = "[]"
        and engineOptions = None and query = "example_query Event []"]
      federated_queries_null_iff_empty[where ctx = example_ctx and hass = ?hass and cache = "[]"
        and engineOptions = None and query = "example_query Event [''attic'']"]
      federated_queries_null_iff_empty[where ctx = example_ctx and hass = ?hass and cache = "[]"
        and engineOptions = None and query = "example_query Recording [''attic'']"
        and segCache = "[]" and sq = "\<lparr>rs_cameraIDs = [], rs_start = 0, rs_end = 1\<rparr>"]
    by simp
qed

text \<open>
  A statement that has all four operations alike, with an empty camera set as
  an example of a null result. \<open>getMediaMetadata\<close> with an empty camera set returns a
  map with one entry, whose metadata is empty.
\<close>

theorem getMediaMetadata_empty_cameras_counterexample:
  "cameraIDs (example_query MediaMetadata []) = [] \<and>
   fst (getMediaMetadata example_ctx (example_hass [] [] [] True) [] None
          (example_query MediaMetadata [])) =
     Inr (Some [((CallerQuery, example_query MediaMetadata []),
                 \<lparr>r_type = MediaMetadataResults, engine = Frigate, instanceID = None,
                  events = [], recordings = [], segments = [], metadata = no_metadata,
                  expiry = Some 1700000060000, cached = False\<rparr>)])"
  by (simp add: metadata_eval events_eval)

section \<open>The cache keys of getEvents\<close>

text \<open>
  C1. As the spec has it, \<open>getEvents\<close> reads the request cache under the per-instance sub-query,
  stores each fresh per-instance result under that same sub-query, and keys the output
  entry by that sub-query, fresh or cached. The code reads the cache under the
  sub-query (\<open>instanceQuery\<close>) but stores under the caller's whole query
  (\<open>this._requestCache.set(query, ...)\<close>), and a cached result goes into the output
  under the caller's query object (\<open>output.set(query, cachedResult)\<close>). Evaluated on a
  query for two cameras on two instances:
  \<^item> with an empty cache, the output is keyed by the two sub-queries, the cache
    afterwards holds one entry, under the whole query, a lookup of a sub-query misses,
    and the same call again sends both native queries again;
  \<^item> with a cache that holds both sub-queries (stored by two calls for one camera
    each, where sub-query and query coincide), no native query is sent, and the output
    has a single entry, under the caller's query, holding the second instance's result.
\<close>

theorem getEvents_cache_keys_at_two_instances:
  "map fst (fst (snd (getEvents_run example_ctx (example_hass [] [] [] True) [] None
                        (example_query Event [''front'', ''garage'']))))
     = [(SubQuery 0, example_query Event [''front'']), (SubQuery 1, example_query Event [''garage''])] \<and>
   map fst (fst (getEvents_run example_ctx (example_hass [] [] [] True) [] None
                   (example_query Event [''front'', ''garage''])))
     = [example_query Event [''front'', ''garage'']] \<and>
   requestCache_get
     (fst (getEvents_run example_ctx (example_hass [] [] [] True) [] None
             (example_query Event [''front'', ''garage''])))
     (now example_ctx) (example_query Event [''front'']) = None \<and>
   length (getEvents_sent example_ctx
     (fst (getEvents_run example_ctx (example_hass [] [] [] True) [] None
             (example_query Event [''front'', ''garage''])))
     None (example_query Event [''front'', ''garage''])) = 2 \<and>
   getEvents_sent example_ctx
     (fst (getEvents_run example_ctx (example_hass [] [] [] True)
        (fst (getEvents_run example_ctx (example_hass [] [] [] True) [] None
                (example_query Event [''front''])))
        None (example_query Event [''garage''])))
     None (example_query Event [''front'', ''garage'']) = [] \<and>
   map fst (fst (snd (getEvents_run example_ctx (example_hass [] [] [] True)
     (fst (getEvents_run example_ctx (example_hass [] [] [] True)
        (fst (getEvents_run example_ctx (example_hass [] [] [] True) [] None
                (example_query Event [''front''])))
        None (example_query Event [''garage''])))
     None (example_query Event [''front'', ''garage'']))))
     = [(CallerQuery, example_query Event [''front'', ''garage''])] \<and>
   map (instanceID \<circ> snd) (fst (snd (getEvents_run example_ctx (example_hass [] [] [] True)
     (fst (getEvents_run example_ctx (example_hass [] [] [] True)
        (fst (getEvents_run example_ctx (example_hass [] [] [] True) [] None
                (example_query Event [''front''])))
        None (example_query Event [''garage''])))
     None (example_query Event [''front'', ''garage'']))))
     = [Some ''frigate2'']"
  by (simp add: events_eval getEvents_sent_def)

end
